theory Spec2Isabelle
  imports Main "HOL-Library.Word"
begin

unbundle bit_operations_syntax

section \<open>The environment: one problem directory seen through POSIX calls\<close>

text \<open>
  The functions of \<^verbatim>\<open>src/lib/dump_dir.c\<close> talk to the operating system only. The
  model makes that environment an explicit value of type \<open>world\<close>: the entries of the one
  directory a handle refers to, the descriptor table of the calling process, \<open>errno\<close>,
  the process table, the account databases, and a schedule of what \<^emph>\<open>other\<close> processes
  do to the directory between two calls of ours. Every system call is a function
  \<open>world \<Rightarrow> result \<times> world\<close> that returns what the C call returns (\<open>-1\<close> with
  \<open>errno\<close> set on failure).
\<close>

datatype errno = E0 | EPERM | ENOENT | EIO | EBADF | EACCES | EEXIST | ENOTDIR | EISDIR
  | EINVAL | ERANGE | ELOOP

datatype ftype = S_IFREG | S_IFDIR | S_IFLNK | S_IFIFO

record stat =
  st_fmt :: ftype
  st_perm :: nat
  st_nlink :: nat
  st_uid :: nat
  st_gid :: nat

text \<open>An entry of the directory: its \<open>stat\<close> data and its bytes (the content of a regular
  file, the target of a symbolic link).\<close>

record node =
  n_stat :: stat
  n_data :: string

text \<open>What an open descriptor refers to: the problem directory itself, an object opened
  for reading (as it was when it was opened), or the entry of the given name opened for
  writing.\<close>

datatype fobj = FDir | FNode node | FWr string

text \<open>What another process may do between two of our calls.\<close>

datatype env_action =
    EnvPut string node
  | EnvDel string
  | EnvProcs "string list"
  | EnvDirErr errno

record passwd =
  pw_name :: string
  pw_gid :: nat

record group =
  gr_name :: string
  gr_mem :: "string list option"

record world =
  w_errno :: errno
  w_fds :: "(int \<times> fobj) list"
  w_dstat :: stat
  w_ents :: "string \<rightharpoonup> node"
  w_direrr :: errno
  w_procs :: "string list"
  w_pid :: nat
  w_euid :: nat
  w_egid :: nat
  w_umask :: nat
  w_eio :: bool
  w_paths :: "string \<rightharpoonup> stat"
  w_passwd :: "nat \<rightharpoonup> passwd"
  w_group :: "nat \<rightharpoonup> group"
  w_sched :: "env_action list list"
  w_slept :: "nat list"

text \<open>
  \<^item> \<open>w_direrr\<close> is \<open>E0\<close> when entries may be created and removed, otherwise the error
    every such attempt meets (\<open>EACCES\<close> for a directory that is not writable, \<open>ENOENT\<close>
    for one that has been removed).
  \<^item> \<open>w_procs\<close> lists the names under \<^verbatim>\<open>/proc\<close>.
  \<^item> \<open>w_eio\<close> makes every transfer of file data fail with \<open>EIO\<close>.
  \<^item> \<open>w_sched\<close> holds one batch of foreign actions per call still to come; when it is
    empty the other processes stay quiet.
  \<^item> \<open>w_slept\<close> records the argument of every \<^verbatim>\<open>usleep\<close> of ours, oldest first.
\<close>

fun env_apply :: "world \<Rightarrow> env_action \<Rightarrow> world" where
  "env_apply w (EnvPut name n) = w\<lparr>w_ents := (w_ents w)(name \<mapsto> n)\<rparr>"
| "env_apply w (EnvDel name) = w\<lparr>w_ents := (w_ents w)(name := None)\<rparr>"
| "env_apply w (EnvProcs ps) = w\<lparr>w_procs := ps\<rparr>"
| "env_apply w (EnvDirErr e) = w\<lparr>w_direrr := e\<rparr>"

definition env_step :: "world \<Rightarrow> world" where
  "env_step w =
     (case w_sched w of
        [] \<Rightarrow> w
      | b # bs \<Rightarrow> foldl env_apply (w\<lparr>w_sched := bs\<rparr>) b)"

definition quiet :: "world \<Rightarrow> bool" where
  "quiet w = (w_sched w = [])"

definition is_dir :: "stat \<Rightarrow> bool" where
  "is_dir st = (st_fmt st = S_IFDIR)"

definition is_reg :: "stat \<Rightarrow> bool" where
  "is_reg st = (st_fmt st = S_IFREG)"

text \<open>The error a call relative to descriptor \<open>fd\<close> meets before it looks at any name:
  \<open>E0\<close> when \<open>fd\<close> is the problem directory. Other directories are opaque to the model
  (not searchable).\<close>

definition at_err :: "world \<Rightarrow> int \<Rightarrow> errno" where
  "at_err w fd =
     (case map_of (w_fds w) fd of
        None \<Rightarrow> EBADF
      | Some FDir \<Rightarrow> E0
      | Some (FNode n) \<Rightarrow> (if is_dir (n_stat n) then EACCES else ENOTDIR)
      | Some (FWr name) \<Rightarrow> ENOTDIR)"

definition fails :: "errno \<Rightarrow> world \<Rightarrow> int \<times> world" where
  "fails e w = (-1, w\<lparr>w_errno := e\<rparr>)"

text \<open>A new descriptor is the lowest number not in use: the search from \<open>c\<close> upwards
  needs at most as many steps as there are descriptors.\<close>

primrec first_free :: "int list \<Rightarrow> nat \<Rightarrow> int \<Rightarrow> int" where
  "first_free ks 0 c = c"
| "first_free ks (Suc k) c = (if c \<in> set ks then first_free ks k (c + 1) else c)"

definition fresh_fd :: "world \<Rightarrow> int" where
  "fresh_fd w = first_free (map fst (w_fds w)) (length (w_fds w)) 0"

definition new_fd :: "fobj \<Rightarrow> world \<Rightarrow> int \<times> world" where
  "new_fd obj w = (fresh_fd w, w\<lparr>w_fds := (fresh_fd w, obj) # w_fds w\<rparr>)"

text \<open>\<^verbatim>\<open>fstatat(dir_fd, name, &buf, AT_SYMLINK_NOFOLLOW)\<close>\<close>

definition fstatat_nofollow :: "int \<Rightarrow> string \<Rightarrow> world \<Rightarrow> stat option \<times> world" where
  "fstatat_nofollow dir_fd name w0 =
     (let w = env_step w0 in
      if at_err w dir_fd \<noteq> E0 then (None, w\<lparr>w_errno := at_err w dir_fd\<rparr>)
      else case w_ents w name of
             None \<Rightarrow> (None, w\<lparr>w_errno := ENOENT\<rparr>)
           | Some n \<Rightarrow> (Some (n_stat n), w))"

text \<open>\<^verbatim>\<open>openat(dir_fd, name, O_RDONLY | O_NOFOLLOW)\<close>, and without \<^verbatim>\<open>O_NOFOLLOW\<close> when
  \<open>follow\<close> is set. A symbolic link met with \<^verbatim>\<open>O_NOFOLLOW\<close> is \<open>ELOOP\<close>; the targets of
  links lie outside the directory, so a followed link is \<open>ENOENT\<close> here.\<close>

definition openat_rdonly :: "int \<Rightarrow> string \<Rightarrow> bool \<Rightarrow> world \<Rightarrow> int \<times> world" where
  "openat_rdonly dir_fd name follow w0 =
     (let w = env_step w0 in
      if at_err w dir_fd \<noteq> E0 then fails (at_err w dir_fd) w
      else case w_ents w name of
             None \<Rightarrow> fails ENOENT w
           | Some n \<Rightarrow>
               if st_fmt (n_stat n) = S_IFLNK then fails (if follow then ENOENT else ELOOP) w
               else new_fd (FNode n) w)"

definition fstat :: "int \<Rightarrow> world \<Rightarrow> stat option \<times> world" where
  "fstat fd w0 =
     (let w = env_step w0 in
      case map_of (w_fds w) fd of
        None \<Rightarrow> (None, w\<lparr>w_errno := EBADF\<rparr>)
      | Some FDir \<Rightarrow> (Some (w_dstat w), w)
      | Some (FNode n) \<Rightarrow> (Some (n_stat n), w)
      | Some (FWr name) \<Rightarrow>
          (case w_ents w name of
             None \<Rightarrow> (None, w\<lparr>w_errno := EIO\<rparr>)
           | Some n \<Rightarrow> (Some (n_stat n), w)))"

definition close :: "int \<Rightarrow> world \<Rightarrow> int \<times> world" where
  "close fd w0 =
     (let w = env_step w0 in
      case map_of (w_fds w) fd of
        None \<Rightarrow> fails EBADF w
      | Some obj \<Rightarrow> (0, w\<lparr>w_fds := filter (\<lambda>p. fst p \<noteq> fd) (w_fds w)\<rparr>))"

text \<open>\<^verbatim>\<open>read(fd, buf, count)\<close>: the bytes read, or \<open>None\<close> for \<open>-1\<close>. A descriptor is
  read once in this file, so no offset is kept.\<close>

definition read :: "int \<Rightarrow> nat \<Rightarrow> world \<Rightarrow> string option \<times> world" where
  "read fd count w0 =
     (let w = env_step w0 in
      case map_of (w_fds w) fd of
        None \<Rightarrow> (None, w\<lparr>w_errno := EBADF\<rparr>)
      | Some FDir \<Rightarrow> (None, w\<lparr>w_errno := EISDIR\<rparr>)
      | Some (FNode n) \<Rightarrow>
          if is_dir (n_stat n) then (None, w\<lparr>w_errno := EISDIR\<rparr>)
          else if w_eio w then (None, w\<lparr>w_errno := EIO\<rparr>)
          else (Some (take count (n_data n)), w)
      | Some (FWr name) \<Rightarrow> (None, w\<lparr>w_errno := EBADF\<rparr>))"

text \<open>\<^verbatim>\<open>unlinkat(dir_fd, name, 0)\<close>: removes anything but a directory.\<close>

definition unlinkat :: "int \<Rightarrow> string \<Rightarrow> world \<Rightarrow> int \<times> world" where
  "unlinkat dir_fd name w0 =
     (let w = env_step w0 in
      if at_err w dir_fd \<noteq> E0 then fails (at_err w dir_fd) w
      else case w_ents w name of
             None \<Rightarrow> fails ENOENT w
           | Some n \<Rightarrow>
               if is_dir (n_stat n) then fails EISDIR w
               else if w_direrr w \<noteq> E0 then fails (w_direrr w) w
               else (0, w\<lparr>w_ents := (w_ents w)(name := None)\<rparr>))"

definition symlink_node :: "world \<Rightarrow> string \<Rightarrow> node" where
  "symlink_node w target =
     \<lparr>n_stat = \<lparr>st_fmt = S_IFLNK, st_perm = 511, st_nlink = 1, st_uid = w_euid w, st_gid = w_egid w\<rparr>,
      n_data = target\<rparr>"

text \<open>\<^verbatim>\<open>symlinkat(target, dir_fd, linkpath)\<close>: atomic; an existing name is \<open>EEXIST\<close>
  whatever it is.\<close>

definition symlinkat :: "string \<Rightarrow> int \<Rightarrow> string \<Rightarrow> world \<Rightarrow> int \<times> world" where
  "symlinkat target dir_fd linkpath w0 =
     (let w = env_step w0 in
      if at_err w dir_fd \<noteq> E0 then fails (at_err w dir_fd) w
      else if w_ents w linkpath \<noteq> None then fails EEXIST w
      else if w_direrr w \<noteq> E0 then fails (w_direrr w) w
      else (0, w\<lparr>w_ents := (w_ents w)(linkpath \<mapsto> symlink_node w target)\<rparr>))"

text \<open>\<^verbatim>\<open>readlinkat(dir_fd, name, buf, bufsiz)\<close>: the number of bytes placed in the buffer
  and those bytes (no NUL is appended), or \<open>-1\<close>.\<close>

definition readlinkat :: "int \<Rightarrow> string \<Rightarrow> nat \<Rightarrow> world \<Rightarrow> int \<times> string \<times> world" where
  "readlinkat dir_fd name bufsiz w0 =
     (let w = env_step w0 in
      if at_err w dir_fd \<noteq> E0 then (-1, [], w\<lparr>w_errno := at_err w dir_fd\<rparr>)
      else case w_ents w name of
             None \<Rightarrow> (-1, [], w\<lparr>w_errno := ENOENT\<rparr>)
           | Some n \<Rightarrow>
               if st_fmt (n_stat n) = S_IFLNK
               then (int (length (take bufsiz (n_data n))), take bufsiz (n_data n), w)
               else (-1, [], w\<lparr>w_errno := EINVAL\<rparr>))"

text \<open>\<^verbatim>\<open>access(path, F_OK)\<close>, for the paths under \<^verbatim>\<open>/proc\<close>; nothing else is looked up
  this way.\<close>

definition access_F_OK :: "string \<Rightarrow> world \<Rightarrow> int \<times> world" where
  "access_F_OK path w0 =
     (let w = env_step w0 in
      if take 6 path = ''/proc/'' \<and> drop 6 path \<in> set (w_procs w) then (0, w)
      else fails ENOENT w)"

definition usleep :: "nat \<Rightarrow> world \<Rightarrow> world" where
  "usleep usec w0 = (let w = env_step w0 in w\<lparr>w_slept := w_slept w @ [usec]\<rparr>)"

text \<open>\<^verbatim>\<open>openat(dir_fd, name, O_WRONLY | O_EXCL | O_CREAT | O_NOFOLLOW, mode)\<close>: the new
  file has the permissions \<open>mode & ~umask\<close> and the caller's effective ids.\<close>

definition openat_creat_excl :: "int \<Rightarrow> string \<Rightarrow> nat \<Rightarrow> world \<Rightarrow> int \<times> world" where
  "openat_creat_excl dir_fd name md w0 =
     (let w = env_step w0 in
      if at_err w dir_fd \<noteq> E0 then fails (at_err w dir_fd) w
      else if w_ents w name \<noteq> None then fails EEXIST w
      else if w_direrr w \<noteq> E0 then fails (w_direrr w) w
      else new_fd (FWr name)
             (w\<lparr>w_ents := (w_ents w)(name \<mapsto>
                 \<lparr>n_stat = \<lparr>st_fmt = S_IFREG, st_perm = md - (md AND w_umask w), st_nlink = 1,
                             st_uid = w_euid w, st_gid = w_egid w\<rparr>,
                  n_data = []\<rparr>)\<rparr>))"

text \<open>The entry a descriptor opened for writing refers to. The descriptor follows the
  name: when another process has removed the entry, what is done through the descriptor
  is lost.\<close>

definition wr_target :: "world \<Rightarrow> int \<Rightarrow> string option" where
  "wr_target w fd = (case map_of (w_fds w) fd of Some (FWr name) \<Rightarrow> Some name | _ \<Rightarrow> None)"

definition upd_entry :: "string \<Rightarrow> (node \<Rightarrow> node) \<Rightarrow> world \<Rightarrow> world" where
  "upd_entry name f w =
     (case w_ents w name of
        None \<Rightarrow> w
      | Some n \<Rightarrow> w\<lparr>w_ents := (w_ents w)(name \<mapsto> f n)\<rparr>)"

definition ID_NONE :: nat where
  "ID_NONE = 2 ^ 32 - 1"

text \<open>\<^verbatim>\<open>fchown(fd, uid, gid)\<close>: an id of \<open>-1\<close> is left as it is. Only the superuser may
  give a file away; anyone may restate the ids his own files have.\<close>

definition fchown :: "int \<Rightarrow> nat \<Rightarrow> nat \<Rightarrow> world \<Rightarrow> int \<times> world" where
  "fchown fd uid gid w0 =
     (let w = env_step w0 in
      case wr_target w fd of
        None \<Rightarrow> fails EBADF w
      | Some name \<Rightarrow>
          if w_euid w = 0 \<or> ((uid = ID_NONE \<or> uid = w_euid w) \<and> (gid = ID_NONE \<or> gid = w_egid w))
          then (0, upd_entry name
                     (\<lambda>n. n\<lparr>n_stat := (n_stat n)\<lparr>st_uid := (if uid = ID_NONE then st_uid (n_stat n) else uid),
                                                st_gid := (if gid = ID_NONE then st_gid (n_stat n) else gid)\<rparr>\<rparr>) w)
          else fails EPERM w)"

definition fchmod :: "int \<Rightarrow> nat \<Rightarrow> world \<Rightarrow> int \<times> world" where
  "fchmod fd md w0 =
     (let w = env_step w0 in
      case wr_target w fd of
        None \<Rightarrow> fails EBADF w
      | Some name \<Rightarrow> (0, upd_entry name (\<lambda>n. n\<lparr>n_stat := (n_stat n)\<lparr>st_perm := md\<rparr>\<rparr>) w))"

text \<open>Modelled from the spec: \<^verbatim>\<open>full_write\<close> is defined outside this file. Section 4.6:
  it writes the full payload, and anything else is an error. It returns the number of
  bytes written, or \<open>-1\<close>.\<close>

definition full_write :: "int \<Rightarrow> string \<Rightarrow> nat \<Rightarrow> world \<Rightarrow> int \<times> world" where
  "full_write fd data sz w0 =
     (let w = env_step w0 in
      case wr_target w fd of
        None \<Rightarrow> fails EBADF w
      | Some name \<Rightarrow>
          if w_eio w then fails EIO w
          else (int sz, upd_entry name (\<lambda>n. n\<lparr>n_data := n_data n @ take sz data\<rparr>) w))"

text \<open>The \<^verbatim>\<open>fgetc\<close> loop of a stream opened on \<open>fd\<close>: every byte up to \<open>EOF\<close>. A read
  error ends the stream like the end of the file does.\<close>

definition fgetc_all :: "int \<Rightarrow> world \<Rightarrow> string \<times> world" where
  "fgetc_all fd w0 =
     (let w = env_step w0 in
      case map_of (w_fds w) fd of
        Some (FNode n) \<Rightarrow>
          if is_dir (n_stat n) then ([], w\<lparr>w_errno := EISDIR\<rparr>)
          else if w_eio w then ([], w\<lparr>w_errno := EIO\<rparr>)
          else (n_data n, w)
      | Some FDir \<Rightarrow> ([], w\<lparr>w_errno := EISDIR\<rparr>)
      | _ \<Rightarrow> ([], w\<lparr>w_errno := EBADF\<rparr>))"

text \<open>\<^verbatim>\<open>open(path, O_DIRECTORY | O_NOFOLLOW)\<close> of a path outside the problem directory.\<close>

definition open_directory :: "string \<Rightarrow> world \<Rightarrow> int \<times> world" where
  "open_directory path w0 =
     (let w = env_step w0 in
      case w_paths w path of
        None \<Rightarrow> fails ENOENT w
      | Some st \<Rightarrow>
          if st_fmt st = S_IFLNK then fails ELOOP w
          else if \<not> is_dir st then fails ENOTDIR w
          else new_fd (FNode \<lparr>n_stat = st, n_data = []\<rparr>) w)"

section \<open>The handle\<close>

text \<open>\<^verbatim>\<open>struct dump_dir\<close>, without its iteration cursor.\<close>

record dump_dir =
  dd_dirname :: string
  dd_fd :: int
  locked :: bool
  dd_time :: int
  dd_uid :: nat
  dd_gid :: nat
  mode :: nat

text \<open>A call that may end the process (\<^verbatim>\<open>error_msg_and_die\<close>, \<^verbatim>\<open>xfunc_die\<close>)
  returns \<open>Die\<close>.\<close>

datatype 'a res = Die | Ret 'a

text \<open>Modelled from the spec: \<^verbatim>\<open>str_is_correct_filename\<close> is defined outside this
  file. Section 6: item names are non-empty, contain no \<^verbatim>\<open>/\<close>, are not \<^verbatim>\<open>.\<close> or
  \<^verbatim>\<open>..\<close>, and hold no control characters.\<close>

definition str_is_correct_filename :: "string \<Rightarrow> bool" where
  "str_is_correct_filename name =
     (name \<noteq> [] \<and> name \<noteq> ''.'' \<and> name \<noteq> ''..'' \<and>
      list_all (\<lambda>c. c \<noteq> CHR ''/'' \<and> (32::nat) \<le> of_char c \<and> of_char c \<noteq> (127::nat)) name)"

section \<open>Path and file primitives\<close>

definition exist_file_dir_at :: "int \<Rightarrow> string \<Rightarrow> world \<Rightarrow> bool \<times> world" where
  "exist_file_dir_at dir_fd name w =
     (case fstatat_nofollow dir_fd name w of
        (Some buf, w1) \<Rightarrow> (if is_dir buf \<or> is_reg buf then (True, w1) else (False, w1))
      | (None, w1) \<Rightarrow> (False, w1))"

definition dd_exist :: "dump_dir \<Rightarrow> string \<Rightarrow> world \<Rightarrow> (bool \<times> world) res" where
  "dd_exist dd name w =
     (if \<not> str_is_correct_filename name then Die
      else Ret (exist_file_dir_at (dd_fd dd) name w))"

definition secure_openat_read :: "int \<Rightarrow> string \<Rightarrow> world \<Rightarrow> int \<times> world" where
  "secure_openat_read dir_fd pathname w =
     (case openat_rdonly dir_fd pathname False w of (path_fd, w1) \<Rightarrow>
        if path_fd < 0 then (-1, w1)
        else (case fstat path_fd w1 of
                (None, w2) \<Rightarrow> (-1, snd (close path_fd w2))
              | (Some path_sb, w2) \<Rightarrow>
                  if \<not> is_reg path_sb \<or> st_nlink path_sb > 1
                  then (-1, snd (close path_fd (w2\<lparr>w_errno := EINVAL\<rparr>)))
                  else (path_fd, w2)))"

section \<open>C strings and the C library\<close>

text \<open>A C string is the bytes before the first NUL of its buffer.\<close>

definition c_str :: "string \<Rightarrow> string" where
  "c_str buf = takeWhile (\<lambda>c. c \<noteq> CHR 0x00) buf"

definition byte :: "char \<Rightarrow> nat" where
  "byte c = of_char c"

text \<open>\<^verbatim>\<open>isspace\<close> of the C locale: space, and the controls 9 to 13.\<close>

definition isspace :: "char \<Rightarrow> bool" where
  "isspace c = (byte c = 32 \<or> (9 \<le> byte c \<and> byte c \<le> 13))"

definition isdigit :: "char \<Rightarrow> bool" where
  "isdigit c = (48 \<le> byte c \<and> byte c \<le> 57)"

definition decimal :: "string \<Rightarrow> int" where
  "decimal ds = foldl (\<lambda>a c. 10 * a + (int (byte c) - 48)) 0 ds"

definition LLONG_MAX :: int where
  "LLONG_MAX = 2 ^ 63 - 1"

text \<open>\<^verbatim>\<open>strtoll(s, &endptr, 10)\<close> after ISO C 7.22.1.4: white space, an optional sign, the
  longest run of digits. It returns the value, what \<open>endptr\<close> points at, and whether
  \<open>errno\<close> is set to \<open>ERANGE\<close>. With no digits nothing is converted and \<open>endptr\<close> is the
  argument.\<close>

definition strtoll :: "string \<Rightarrow> int \<times> string \<times> bool" where
  "strtoll s =
     (let t = dropWhile isspace s;
          neg = (t \<noteq> [] \<and> hd t = CHR ''-'');
          u = (if t \<noteq> [] \<and> (hd t = CHR ''-'' \<or> hd t = CHR ''+'') then tl t else t);
          ds = takeWhile isdigit u;
          mag = decimal ds
      in if ds = [] then (0, s, False)
         else if neg then
           (if mag > LLONG_MAX + 1 then (- LLONG_MAX - 1, dropWhile isdigit u, True)
            else (- mag, dropWhile isdigit u, False))
         else
           (if mag > LLONG_MAX then (LLONG_MAX, dropWhile isdigit u, True)
            else (mag, dropWhile isdigit u, False)))"

section \<open>The timestamp parser\<close>

text \<open>The argument is a C string. The \<^verbatim>\<open>do ... while\<close> tests the first byte before it
  looks for the end, so the empty string is refused.\<close>

fun isdigit_str :: "string \<Rightarrow> bool" where
  "isdigit_str [] = False"
| "isdigit_str (c # cs) =
     (if byte c < 48 \<or> byte c > 57 then False
      else if cs = [] then True
      else isdigit_str cs)"

text \<open>\<^verbatim>\<open>time_t\<close> is the 64-bit signed integer of the LP64 targets.\<close>

definition sizeof_time_t :: nat where
  "sizeof_time_t = 8"

definition time_buf_size :: nat where
  "time_buf_size = sizeof_time_t * 3 + 1"

definition MAX_TIME_T :: int where
  "MAX_TIME_T = 2 ^ (sizeof_time_t * 8 - 1) - 1"

definition FILENAME_TIME :: string where
  "FILENAME_TIME = ''time''"

text \<open>\<^verbatim>\<open>parse_time_file_at\<close> after the length check, on the \<open>rdsz\<close> bytes read: the value
  returned and what \<open>errno\<close> has become.\<close>

definition parse_time_buf :: "string \<Rightarrow> int \<times> errno" where
  "parse_time_buf bytes =
     (let rdsz = (if length bytes > 0 \<and> bytes ! (length bytes - 1) = CHR 0x0A
                  then length bytes - 1 else length bytes);
          time_buf = c_str (take rdsz bytes)
      in case strtoll time_buf of (val, endptr, erange) \<Rightarrow>
           (let e = (if erange then ERANGE else E0)
            in if e \<noteq> E0 \<or> endptr \<noteq> [] \<or> val \<ge> MAX_TIME_T \<or> \<not> isdigit_str time_buf
               then (-1, e)
               else (val, e)))"

definition parse_time_file_at :: "int \<Rightarrow> string \<Rightarrow> world \<Rightarrow> int \<times> world" where
  "parse_time_file_at dir_fd filename w =
     (case secure_openat_read dir_fd filename w of (fd, w1) \<Rightarrow>
        if fd < 0 then (-1, w1)
        else (case read fd time_buf_size w1 of (rd, w2) \<Rightarrow>
          (case close fd w2 of (c, w3) \<Rightarrow>
            (case rd of
               None \<Rightarrow> (-1, w3)
             | Some bytes \<Rightarrow>
                 if length bytes = time_buf_size then (-1, w3)
                 else (case parse_time_buf bytes of (t, e) \<Rightarrow> (t, w3\<lparr>w_errno := e\<rparr>))))))"

definition dd_check :: "dump_dir \<Rightarrow> world \<Rightarrow> string option \<times> dump_dir \<times> world" where
  "dd_check dd w =
     (case parse_time_file_at (dd_fd dd) FILENAME_TIME w of (t, w1) \<Rightarrow>
        if t < 0 then (Some FILENAME_TIME, dd\<lparr>dd_time := t\<rparr>, w1)
        else (None, dd\<lparr>dd_time := t\<rparr>, w1))"

section \<open>Deleting an item\<close>

definition dd_delete_item :: "dump_dir \<Rightarrow> string \<Rightarrow> world \<Rightarrow> (int \<times> world) res" where
  "dd_delete_item dd name w =
     (if \<not> locked dd then Die
      else if \<not> str_is_correct_filename name then Die
      else case unlinkat (dd_fd dd) name w of (res, w1) \<Rightarrow>
             if res < 0 then (if w_errno w1 = ENOENT then Ret (0, w1) else Ret (res, w1))
             else Ret (res, w1))"

section \<open>Item read and write\<close>

datatype dd_flag =
    DD_FAIL_QUIETLY_ENOENT
  | DD_FAIL_QUIETLY_EACCES
  | DD_OPEN_READONLY
  | DD_LOAD_TEXT_RETURN_NULL_ON_FAILURE
  | DD_DONT_WAIT_FOR_LOCK
  | DD_CREATE_PARENTS
  | DD_OPEN_FOLLOW

text \<open>A flag word is the set of its bits; \<^verbatim>\<open>flags & F\<close> is \<open>F \<in> flags\<close>.\<close>

definition FILENAME_OS_RELEASE :: string where
  "FILENAME_OS_RELEASE = ''os_release''"

definition FILENAME_REPORTED_TO :: string where
  "FILENAME_REPORTED_TO = ''reported_to''"

text \<open>The \<^verbatim>\<open>while ((ch = fgetc(fp)) != EOF)\<close> loop. \<open>oneline\<close> is a C \<^verbatim>\<open>int\<close>: a 32-bit
  word, shifted and or-ed as the machine does it.\<close>

fun load_text_loop :: "string \<Rightarrow> 32 word \<Rightarrow> string \<Rightarrow> 32 word \<times> string" where
  "load_text_loop [] oneline buf = (oneline, buf)"
| "load_text_loop (c # rest) oneline buf =
     (let oneline1 = (if c = CHR 0x0A then (push_bit 1 oneline) OR 1 else oneline);
          ch = (if c = CHR 0x00 then CHR '' '' else c)
      in load_text_loop rest oneline1 (if isspace ch \<or> byte ch \<ge> 32 then buf @ [ch] else buf))"

text \<open>What follows the loop: the fix of the last line.\<close>

definition load_text_finish :: "32 word \<times> string \<Rightarrow> string" where
  "load_text_finish r =
     (case r of (oneline, buf) \<Rightarrow>
        (let lst = (if oneline \<noteq> 0 then buf ! (length buf - 1) else CHR 0x00)
         in if lst = CHR 0x0A
            then (if oneline = 1 then take (length buf - 1) buf else buf)
            else (if 1 \<le> sint oneline then buf @ [CHR 0x0A] else buf)))"

definition load_text_from_file_descriptor ::
    "int \<Rightarrow> string \<Rightarrow> dd_flag set \<Rightarrow> world \<Rightarrow> (string option \<times> world) res" where
  "load_text_from_file_descriptor fd path flags w =
     (if fd = -1 then
        Ret (if DD_LOAD_TEXT_RETURN_NULL_ON_FAILURE \<in> flags then None else Some [], w)
      else if map_of (w_fds w) fd = None then Die
      else (case fgetc_all fd w of (bytes, w1) \<Rightarrow>
              Ret (Some (load_text_finish (load_text_loop bytes 0 [])), snd (close fd w1))))"

definition load_text_file_at ::
    "int \<Rightarrow> string \<Rightarrow> dd_flag set \<Rightarrow> world \<Rightarrow> (string option \<times> world) res" where
  "load_text_file_at dir_fd name flags w =
     (if name \<noteq> [] \<and> hd name = CHR ''/'' then Die
      else (case openat_rdonly dir_fd name (DD_OPEN_FOLLOW \<in> flags) w of (fd, w1) \<Rightarrow>
              load_text_from_file_descriptor fd name flags w1))"

definition save_binary_file_at ::
    "int \<Rightarrow> string \<Rightarrow> string \<Rightarrow> nat \<Rightarrow> nat \<Rightarrow> nat \<Rightarrow> nat \<Rightarrow> world \<Rightarrow> (bool \<times> world) res" where
  "save_binary_file_at dir_fd name data sz uid gid md w =
     (if name \<noteq> [] \<and> hd name = CHR ''/'' then Die
      else (case unlinkat dir_fd name w of (u, w1) \<Rightarrow>
        (case openat_creat_excl dir_fd name md w1 of (fd, w2) \<Rightarrow>
           if fd < 0 then Ret (False, w2)
           else (case (if uid \<noteq> ID_NONE then fchown fd uid gid w2 else (0, w2)) of (r1, w3) \<Rightarrow>
             if r1 = -1 then Ret (False, snd (close fd w3))
             else (case fchmod fd md w3 of (r2, w4) \<Rightarrow>
               if r2 = -1 then Ret (False, snd (close fd w4))
               else (case full_write fd data sz w4 of (r, w5) \<Rightarrow>
                 (case close fd w5 of (c, w6) \<Rightarrow>
                    if r mod 2 ^ 32 \<noteq> int sz then Ret (False, w6)
                    else Ret (True, w6))))))))"

definition dd_load_text_ext ::
    "dump_dir \<Rightarrow> string \<Rightarrow> dd_flag set \<Rightarrow> world \<Rightarrow> (string option \<times> world) res" where
  "dd_load_text_ext dd name flags w =
     (if \<not> str_is_correct_filename name then
        (if DD_LOAD_TEXT_RETURN_NULL_ON_FAILURE \<in> flags then Ret (None, w) else Die)
      else load_text_file_at (dd_fd dd)
             (if name = ''release'' then FILENAME_OS_RELEASE else name) flags w)"

definition dd_load_text :: "dump_dir \<Rightarrow> string \<Rightarrow> world \<Rightarrow> (string option \<times> world) res" where
  "dd_load_text dd name w = dd_load_text_ext dd name {} w"

text \<open>\<open>data\<close> is a C string; \<^verbatim>\<open>strlen(data)\<close> is passed as an \<^verbatim>\<open>unsigned\<close>.\<close>

definition dd_save_text :: "dump_dir \<Rightarrow> string \<Rightarrow> string \<Rightarrow> world \<Rightarrow> world res" where
  "dd_save_text dd name data w =
     (if \<not> locked dd then Die
      else if \<not> str_is_correct_filename name then Die
      else (case save_binary_file_at (dd_fd dd) name (c_str data) (length (c_str data) mod 2 ^ 32)
                   (dd_uid dd) (dd_gid dd) (mode dd) w of
              Die \<Rightarrow> Die
            | Ret (ok, w1) \<Rightarrow> Ret w1))"

section \<open>The \<open>reported_to\<close> log\<close>

text \<open>\<^verbatim>\<open>strncmp(a, b, n) == 0\<close> on C strings.\<close>

definition strncmp_eq :: "string \<Rightarrow> string \<Rightarrow> nat \<Rightarrow> bool" where
  "strncmp_eq a b n = (take n (c_str a) = take n (c_str b))"

text \<open>\<^verbatim>\<open>strchrnul(p, '\n') - p\<close>\<close>

definition to_eol :: "string \<Rightarrow> nat" where
  "to_eol s = length (takeWhile (\<lambda>c. c \<noteq> CHR 0x0A) (c_str s))"

text \<open>The search loop of \<^verbatim>\<open>add_reported_to\<close>. The pointer \<open>p\<close> is an offset into the
  loaded text; \<open>None\<close> is the \<^verbatim>\<open>goto ret\<close>, \<open>Some p\<close> the offset the loop ends at.
  \<open>len_line\<close> is the \<^verbatim>\<open>unsigned\<close> the length of the line is stored in.\<close>

function add_scan :: "string \<Rightarrow> string \<Rightarrow> nat \<Rightarrow> nat \<Rightarrow> nat option" where
  "add_scan text line len_line p =
     (if length text \<le> p then Some p
      else if strncmp_eq (drop p text) line len_line \<and>
              (length text \<le> p + len_line \<or> text ! (p + len_line) = CHR 0x0A)
           then None
      else if length text \<le> p + to_eol (drop p text) then Some (p + to_eol (drop p text))
      else add_scan text line len_line (p + to_eol (drop p text) + 1))"
  by pat_completeness auto
termination
  by (relation "measure (\<lambda>(text, line, len_line, p). length text - p)") auto

declare add_scan.simps [simp del]

definition add_reported_to :: "dump_dir \<Rightarrow> string \<Rightarrow> world \<Rightarrow> world res" where
  "add_reported_to dd line0 w =
     (if \<not> locked dd then Die
      else (case dd_load_text_ext dd FILENAME_REPORTED_TO
                   {DD_FAIL_QUIETLY_ENOENT, DD_LOAD_TEXT_RETURN_NULL_ON_FAILURE} w of
              Die \<Rightarrow> Die
            | Ret (None, w1) \<Rightarrow> dd_save_text dd FILENAME_REPORTED_TO (c_str line0 @ [CHR 0x0A]) w1
            | Ret (Some reported_to, w1) \<Rightarrow>
                (let line = c_str line0; len_line = length line mod 2 ^ 32 in
                 case add_scan reported_to line len_line 0 of
                   None \<Rightarrow> Ret w1
                 | Some p \<Rightarrow>
                     dd_save_text dd FILENAME_REPORTED_TO
                       ((if p \<noteq> 0 \<and> reported_to ! (p - 1) \<noteq> CHR 0x0A
                         then reported_to @ [CHR 0x0A] else reported_to)
                        @ line @ [CHR 0x0A]) w1)))"

record report_result =
  url :: "string option"
  msg :: "string option"

text \<open>Modelled from the spec: \<^verbatim>\<open>skip_whitespace\<close> and \<^verbatim>\<open>skip_non_whitespace\<close> are defined
  outside this file. Section 4.8: a line is tokenized on whitespace.\<close>

definition skip_whitespace :: "string \<Rightarrow> string" where
  "skip_whitespace s = dropWhile isspace s"

definition skip_non_whitespace :: "string \<Rightarrow> string" where
  "skip_non_whitespace s = dropWhile (\<lambda>c. \<not> isspace c) s"

lemma skip_shorter:
  "skip_whitespace line \<noteq> [] \<Longrightarrow>
   length (skip_non_whitespace (skip_whitespace line)) < length line"
proof -
  assume ne: "skip_whitespace line \<noteq> []"
  then obtain c cs where l: "skip_whitespace line = c # cs" by (cases "skip_whitespace line") auto
  then have "\<not> isspace c"
    using hd_dropWhile [of isspace line] by (simp add: skip_whitespace_def)
  then have "length (skip_non_whitespace (skip_whitespace line)) \<le> length cs"
    using l by (simp add: skip_non_whitespace_def length_dropWhile_le)
  also have "\<dots> < length (skip_whitespace line)" using l by simp
  also have "\<dots> \<le> length line" by (simp add: skip_whitespace_def length_dropWhile_le)
  finally show ?thesis .
qed

text \<open>The \<^verbatim>\<open>for (;;)\<close> loop of \<^verbatim>\<open>parse_reported_line\<close>; the argument is a C string.\<close>

function parse_reported_loop :: "string \<Rightarrow> report_result \<Rightarrow> report_result" where
  "parse_reported_loop line result =
     (if skip_whitespace line = [] then result
      else if strncmp_eq (skip_whitespace line) ''MSG='' 4
           then result\<lparr>msg := Some (drop 4 (skip_whitespace line))\<rparr>
      else parse_reported_loop (skip_non_whitespace (skip_whitespace line))
             (if strncmp_eq (skip_whitespace line) ''URL='' 4
              then result\<lparr>url := Some (take (length (skip_whitespace line)
                                                - length (skip_non_whitespace (skip_whitespace line)) - 4)
                                              (drop 4 (skip_whitespace line)))\<rparr>
              else result))"
  by pat_completeness auto
termination
  by (relation "measure (\<lambda>(line, result). length line)") (auto simp: skip_shorter)

declare parse_reported_loop.simps [simp del]

definition parse_reported_line :: "string \<Rightarrow> report_result" where
  "parse_reported_line line = parse_reported_loop line \<lparr>url = None, msg = None\<rparr>"

text \<open>The search loop of \<^verbatim>\<open>find_in_reported_to\<close>: it writes a NUL over every line end it
  passes, and returns the offset found last (if any) with the buffer as it has become.
  \<open>prefix_len\<close> is the \<^verbatim>\<open>unsigned\<close> the length of the prefix is stored in.\<close>

function find_scan ::
    "string \<Rightarrow> string \<Rightarrow> nat \<Rightarrow> nat \<Rightarrow> nat option \<Rightarrow> nat option \<times> string" where
  "find_scan buf prefix prefix_len p found =
     (if length buf \<le> p \<or> buf ! p = CHR 0x00 then (found, buf)
      else if p + to_eol (drop p buf) < length buf \<and> buf ! (p + to_eol (drop p buf)) \<noteq> CHR 0x00
           then find_scan (buf[p + to_eol (drop p buf) := CHR 0x00]) prefix prefix_len
                  (p + to_eol (drop p buf) + 1)
                  (if strncmp_eq (drop p buf) prefix prefix_len
                   then Some (p + prefix_len) else found)
      else ((if strncmp_eq (drop p buf) prefix prefix_len
             then Some (p + prefix_len) else found), buf))"
  by pat_completeness auto
termination
  by (relation "measure (\<lambda>(buf, prefix, prefix_len, p, found). length buf - p)") auto

declare find_scan.simps [simp del]

definition find_in_reported_to ::
    "dump_dir \<Rightarrow> string \<Rightarrow> world \<Rightarrow> (report_result option \<times> world) res" where
  "find_in_reported_to dd prefix0 w =
     (case dd_load_text_ext dd FILENAME_REPORTED_TO
             {DD_FAIL_QUIETLY_ENOENT, DD_LOAD_TEXT_RETURN_NULL_ON_FAILURE} w of
        Die \<Rightarrow> Die
      | Ret (None, w1) \<Rightarrow> Ret (None, w1)
      | Ret (Some reported_to, w1) \<Rightarrow>
          (let prefix = c_str prefix0; prefix_len = length prefix mod 2 ^ 32 in
           case find_scan reported_to prefix prefix_len 0 None of
             (None, buf) \<Rightarrow> Ret (None, w1)
           | (Some found, buf) \<Rightarrow> Ret (Some (parse_reported_line (c_str (drop found buf))), w1)))"

section \<open>The accessibility query\<close>

definition uid_in_group :: "nat \<Rightarrow> nat \<Rightarrow> world \<Rightarrow> bool" where
  "uid_in_group uid gid w =
     (case w_passwd w uid of
        None \<Rightarrow> False
      | Some pwd \<Rightarrow>
          if pw_gid pwd = gid then True
          else (case w_group w gid of
                  None \<Rightarrow> False
                | Some grp \<Rightarrow>
                    (case gr_mem grp of
                       None \<Rightarrow> False
                     | Some mem \<Rightarrow> list_ex (\<lambda>m. m = pw_name pwd) mem)))"

definition DD_STAT_ACCESSIBLE_BY_UID :: int where
  "DD_STAT_ACCESSIBLE_BY_UID = 1"

definition DD_STAT_OWNED_BY_UID :: int where
  "DD_STAT_OWNED_BY_UID = push_bit 1 DD_STAT_ACCESSIBLE_BY_UID"

definition S_IROTH :: nat where
  "S_IROTH = 4"

text \<open>\<open>DUMP_DIR_OWNED_BY_USER\<close> is fixed when the library is built; the functions take it as
  their first argument.\<close>

definition fdump_dir_stat_for_uid :: "int \<Rightarrow> int \<Rightarrow> nat \<Rightarrow> world \<Rightarrow> int \<times> world" where
  "fdump_dir_stat_for_uid DUMP_DIR_OWNED_BY_USER dir_fd uid w =
     (case fstat dir_fd w of
        (None, w1) \<Rightarrow> (-1, w1\<lparr>w_errno := ENOTDIR\<rparr>)
      | (Some statbuf, w1) \<Rightarrow>
          if \<not> is_dir statbuf then (-1, w1\<lparr>w_errno := ENOTDIR\<rparr>)
          else
            (let w2 = w1\<lparr>w_errno := E0\<rparr>;
                 ddstat0 = (0 :: int);
                 ddstat1 = (if uid = 0 \<or> st_perm statbuf AND S_IROTH \<noteq> 0
                            then ddstat0 OR DD_STAT_ACCESSIBLE_BY_UID else ddstat0);
                 ddstat2 = (if uid = 0 \<or> st_perm statbuf AND S_IROTH \<noteq> 0 \<or>
                               (if DUMP_DIR_OWNED_BY_USER > 0 then uid = st_uid statbuf
                                else uid_in_group uid (st_gid statbuf) w2)
                            then (ddstat1 OR DD_STAT_ACCESSIBLE_BY_UID) OR DD_STAT_OWNED_BY_UID
                            else ddstat1)
             in (ddstat2, w2)))"

definition dump_dir_stat_for_uid :: "int \<Rightarrow> string \<Rightarrow> nat \<Rightarrow> world \<Rightarrow> int \<times> world" where
  "dump_dir_stat_for_uid DUMP_DIR_OWNED_BY_USER dirname uid w =
     (case open_directory dirname w of (dir_fd, w1) \<Rightarrow>
        if dir_fd < 0 then (-1, w1\<lparr>w_errno := ENOTDIR\<rparr>)
        else (case fdump_dir_stat_for_uid DUMP_DIR_OWNED_BY_USER dir_fd uid w1 of (r, w2) \<Rightarrow>
                (r, snd (close dir_fd w2))))"

definition fdump_dir_accessible_by_uid :: "int \<Rightarrow> int \<Rightarrow> nat \<Rightarrow> world \<Rightarrow> int \<times> world" where
  "fdump_dir_accessible_by_uid DUMP_DIR_OWNED_BY_USER dir_fd uid w =
     (case fdump_dir_stat_for_uid DUMP_DIR_OWNED_BY_USER dir_fd uid w of (ddstat, w1) \<Rightarrow>
        if ddstat \<ge> 0 then (ddstat AND DD_STAT_ACCESSIBLE_BY_UID, w1) else (0, w1))"

definition dump_dir_accessible_by_uid :: "int \<Rightarrow> string \<Rightarrow> nat \<Rightarrow> world \<Rightarrow> int \<times> world" where
  "dump_dir_accessible_by_uid DUMP_DIR_OWNED_BY_USER dirname uid w =
     (case dump_dir_stat_for_uid DUMP_DIR_OWNED_BY_USER dirname uid w of (ddstat, w1) \<Rightarrow>
        if ddstat \<ge> 0 then (ddstat AND DD_STAT_ACCESSIBLE_BY_UID, w1) else (0, w1))"

section \<open>The lock\<close>

definition SYMLINK_RETRY_USLEEP :: nat where
  "SYMLINK_RETRY_USLEEP = 10 * 1000"

definition WAIT_FOR_OTHER_PROCESS_USLEEP :: nat where
  "WAIT_FOR_OTHER_PROCESS_USLEEP = 500 * 1000"

definition CREATE_LOCK_USLEEP :: nat where
  "CREATE_LOCK_USLEEP = 10 * 1000"

definition NO_TIME_FILE_USLEEP :: nat where
  "NO_TIME_FILE_USLEEP = 50 * 1000"

definition NO_TIME_FILE_COUNT :: "32 word" where
  "NO_TIME_FILE_COUNT = 10"

text \<open>\<^verbatim>\<open>sprintf(buf, "%lu", n)\<close>\<close>

fun dec :: "nat \<Rightarrow> string" where
  "dec n = (if n < 10 then [char_of (48 + n)] else dec (n div 10) @ [char_of (48 + n mod 10)])"

declare dec.simps [simp del]

text \<open>
  The loops of the lock can run for ever (a live process may hold the lock for ever), so
  they take a bound on the number of their rounds and return \<open>None\<close> when it is used up.

  \<^verbatim>\<open>create_symlink_lockfile_at\<close>: \<open>pid\<close> is a C string; the buffer for the link's target
  has \<^verbatim>\<open>sizeof(pid_t)*3 + 4\<close> = 16 bytes.
\<close>

fun create_symlink_lockfile_at ::
    "nat \<Rightarrow> int \<Rightarrow> string \<Rightarrow> string \<Rightarrow> world \<Rightarrow> (int \<times> world) option" where
  "create_symlink_lockfile_at 0 dir_fd lock_file pid w = None"
| "create_symlink_lockfile_at (Suc n) dir_fd lock_file pid w =
     (case symlinkat pid dir_fd lock_file w of (s, w1) \<Rightarrow>
        if s = 0 then Some (1, w1)
        else if w_errno w1 \<noteq> EEXIST then
          (if w_errno w1 \<noteq> ENOENT \<and> w_errno w1 \<noteq> ENOTDIR \<and> w_errno w1 \<noteq> EACCES
           then Some (-1, w1\<lparr>w_errno := E0\<rparr>)
           else Some (-1, w1))
        else (case readlinkat dir_fd lock_file (16 - 1) w1 of (r, buf, w2) \<Rightarrow>
          if r < 0 then
            (if w_errno w2 = ENOENT
             then create_symlink_lockfile_at n dir_fd lock_file pid (usleep SYMLINK_RETRY_USLEEP w2)
             else Some (-1, w2\<lparr>w_errno := E0\<rparr>))
          else if c_str (take (nat r) buf) = c_str pid then Some (0, w2)
          else (case (if isdigit_str (c_str (take (nat r) buf))
                      then access_F_OK (''/proc/'' @ c_str (take (nat r) buf)) w2
                      else (-1, w2)) of (a, w3) \<Rightarrow>
            if isdigit_str (c_str (take (nat r) buf)) \<and> a = 0 then Some (0, w3)
            else (case unlinkat dir_fd lock_file w3 of (u, w4) \<Rightarrow>
              if u \<noteq> 0 \<and> w_errno w4 \<noteq> ENOENT then Some (-1, w4\<lparr>w_errno := E0\<rparr>)
              else create_symlink_lockfile_at n dir_fd lock_file pid w4))))"

text \<open>Modelled from the spec: \<^verbatim>\<open>xunlinkat\<close> is defined outside this file. Section 4.3:
  the unlink of \<^verbatim>\<open>.lock\<close> is fatal on failure.\<close>

definition xunlinkat :: "int \<Rightarrow> string \<Rightarrow> world \<Rightarrow> world res" where
  "xunlinkat dir_fd name w =
     (case unlinkat dir_fd name w of (u, w1) \<Rightarrow> if u \<noteq> 0 then Die else Ret w1)"

text \<open>The \<^verbatim>\<open>while (1)\<close> loop of \<^verbatim>\<open>dd_lock\<close>: it ends with the result of
  \<^verbatim>\<open>create_symlink_lockfile_at\<close> when that is not 0.\<close>

fun dd_lock_wait :: "nat \<Rightarrow> dump_dir \<Rightarrow> nat \<Rightarrow> string \<Rightarrow> world \<Rightarrow> (int \<times> world) option" where
  "dd_lock_wait 0 dd sleep_usec pid_buf w = None"
| "dd_lock_wait (Suc n) dd sleep_usec pid_buf w =
     (case create_symlink_lockfile_at (Suc n) (dd_fd dd) ''.lock'' pid_buf w of
        None \<Rightarrow> None
      | Some (r, w1) \<Rightarrow>
          if r < 0 then Some (r, w1)
          else if r > 0 then Some (r, w1)
          else dd_lock_wait n dd sleep_usec pid_buf (usleep sleep_usec w1))"

text \<open>\<^verbatim>\<open>dd_lock\<close> from the label \<^verbatim>\<open>retry\<close> on, with the value of \<open>count\<close> (an
  \<^verbatim>\<open>unsigned\<close>).\<close>

fun dd_lock_retry ::
    "nat \<Rightarrow> 32 word \<Rightarrow> dump_dir \<Rightarrow> nat \<Rightarrow> dd_flag set \<Rightarrow> string \<Rightarrow> world
      \<Rightarrow> (int \<times> dump_dir \<times> world) res option" where
  "dd_lock_retry 0 count dd sleep_usec flags pid_buf w = None"
| "dd_lock_retry (Suc n) count dd sleep_usec flags pid_buf w =
     (case dd_lock_wait (Suc n) dd sleep_usec pid_buf w of
        None \<Rightarrow> None
      | Some (r, w1) \<Rightarrow>
          if r < 0 then Some (Ret (r, dd, w1))
          else if sleep_usec = WAIT_FOR_OTHER_PROCESS_USLEEP then
            (case dd_check dd w1 of
               (None, dd2, w2) \<Rightarrow> Some (Ret (0, dd2\<lparr>locked := True\<rparr>, w2))
             | (Some missing_file, dd2, w2) \<Rightarrow>
                 (case xunlinkat (dd_fd dd2) ''.lock'' w2 of
                    Die \<Rightarrow> Some Die
                  | Ret w3 \<Rightarrow>
                      if count - 1 = 0 \<or> DD_DONT_WAIT_FOR_LOCK \<in> flags
                      then Some (Ret (-1, dd2, w3\<lparr>w_errno := EISDIR\<rparr>))
                      else dd_lock_retry n (count - 1) dd2 sleep_usec flags pid_buf
                             (usleep NO_TIME_FILE_USLEEP w3)))
          else Some (Ret (0, dd\<lparr>locked := True\<rparr>, w1)))"

definition dd_lock ::
    "nat \<Rightarrow> dump_dir \<Rightarrow> nat \<Rightarrow> dd_flag set \<Rightarrow> world \<Rightarrow> (int \<times> dump_dir \<times> world) res option" where
  "dd_lock fuel dd sleep_usec flags w =
     (if locked dd then Some Die
      else dd_lock_retry fuel NO_TIME_FILE_COUNT dd sleep_usec flags (dec (w_pid w)) w)"

section \<open>Notions of the specification\<close>

text \<open>The sanitization pass of section 4.6 in the specification's words: a NUL becomes
  a space, then whitespace and the bytes from \<open>' '\<close> on are kept.\<close>

definition nul_to_space :: "char \<Rightarrow> char" where
  "nul_to_space c = (if c = CHR 0x00 then CHR '' '' else c)"

definition kept :: "char \<Rightarrow> bool" where
  "kept c = (isspace c \<or> 32 \<le> byte c)"

definition sanitize :: "string \<Rightarrow> string" where
  "sanitize bytes = filter kept (map nul_to_space bytes)"

definition newlines :: "string \<Rightarrow> nat" where
  "newlines bytes = length (filter (\<lambda>c. c = CHR 0x0A) bytes)"

text \<open>The newline rule as claimed: one final newline that is the only one is removed;
  content with a newline that does not end in one gets one; anything else is left.\<close>

definition spec_newline_rule :: "string \<Rightarrow> string" where
  "spec_newline_rule s =
     (if s \<noteq> [] \<and> last s = CHR 0x0A \<and> newlines s = 1 then butlast s
      else if 0 < newlines s \<and> last s \<noteq> CHR 0x0A then s @ [CHR 0x0A]
      else s)"

definition spec_load_text :: "string \<Rightarrow> string" where
  "spec_load_text bytes = spec_newline_rule (sanitize bytes)"

text \<open>What the loader of the code returns for the bytes of a stream.\<close>

definition text_of :: "string \<Rightarrow> string" where
  "text_of bytes = load_text_finish (load_text_loop bytes 0 [])"

text \<open>The content of the \<open>time\<close> file without its one optional final newline.\<close>

definition strip_nl :: "string \<Rightarrow> string" where
  "strip_nl bytes = (if bytes \<noteq> [] \<and> last bytes = CHR 0x0A then butlast bytes else bytes)"

text \<open>A save followed by a load of the same item: what the load returns.\<close>

definition load_after_save :: "dump_dir \<Rightarrow> string \<Rightarrow> string \<Rightarrow> world \<Rightarrow> string option res" where
  "load_after_save dd name data w =
     (case dd_save_text dd name data w of
        Die \<Rightarrow> Die
      | Ret w1 \<Rightarrow> (case dd_load_text dd name w1 of Die \<Rightarrow> Die | Ret (t, w2) \<Rightarrow> Ret t))"

text \<open>The worlds in which a save of \<open>name\<close> through \<open>dd\<close> goes through: nobody interferes,
  the descriptor is the problem directory and lets entries be made and removed, data can
  be written, \<open>name\<close> is not a directory, and the caller may give the file the owner the
  handle asks for. The node such a save leaves behind is \<open>saved_node\<close>.\<close>

definition may_save :: "dump_dir \<Rightarrow> string \<Rightarrow> world \<Rightarrow> bool" where
  "may_save dd name w =
     (quiet w \<and> map_of (w_fds w) (dd_fd dd) = Some FDir \<and> w_direrr w = E0 \<and> \<not> w_eio w \<and>
      (case w_ents w name of None \<Rightarrow> True | Some n \<Rightarrow> \<not> is_dir (n_stat n)) \<and>
      (dd_uid dd = ID_NONE \<or> w_euid w = 0 \<or>
       (dd_uid dd = w_euid w \<and> (dd_gid dd = ID_NONE \<or> dd_gid dd = w_egid w))))"

definition saved_node :: "dump_dir \<Rightarrow> world \<Rightarrow> string \<Rightarrow> node" where
  "saved_node dd w bytes =
     \<lparr>n_stat = \<lparr>st_fmt = S_IFREG, st_perm = mode dd, st_nlink = 1,
                 st_uid = (if dd_uid dd = ID_NONE then w_euid w else dd_uid dd),
                 st_gid = (if dd_uid dd = ID_NONE \<or> dd_gid dd = ID_NONE then w_egid w else dd_gid dd)\<rparr>,
      n_data = bytes\<rparr>"

text \<open>Membership of a user in a group, as the account databases give it: the user has an
  entry, and the group is his primary group or lists his name.\<close>

definition group_member :: "world \<Rightarrow> nat \<Rightarrow> nat \<Rightarrow> bool" where
  "group_member w uid gid =
     (\<exists>pwd. w_passwd w uid = Some pwd \<and>
        (pw_gid pwd = gid \<or>
         (\<exists>grp mem. w_group w gid = Some grp \<and> gr_mem grp = Some mem \<and> pw_name pwd \<in> set mem)))"

text \<open>The number of times the caller has slept for \<open>NO_TIME_FILE_USLEEP\<close>: once for
  every round of \<^verbatim>\<open>dd_lock\<close> that found no \<open>time\<close> file and went on to try again.\<close>

definition naps :: "world \<Rightarrow> nat" where
  "naps w = count_list (w_slept w) NO_TIME_FILE_USLEEP"

text \<open>What the \<open>time\<close> file of the directory parses to: negative when there is no parseable
  \<open>time\<close> file.\<close>

definition time_parse :: "dump_dir \<Rightarrow> world \<Rightarrow> int" where
  "time_parse dd w = fst (parse_time_file_at (dd_fd dd) FILENAME_TIME w)"

text \<open>The target of a lock as far as it is read (into a buffer of 15 bytes and a NUL).\<close>

definition lock_target :: "node \<Rightarrow> string" where
  "lock_target n = c_str (take 15 (n_data n))"

text \<open>Section 5 and the glossary: a lock is stale when its target is not the decimal pid
  of a live process. \<open>lock_free\<close>: there is no \<^verbatim>\<open>.lock\<close>, or a stale one that is not our
  own.\<close>

definition lock_free :: "string \<Rightarrow> world \<Rightarrow> bool" where
  "lock_free pid w =
     (case w_ents w ''.lock'' of
        None \<Rightarrow> True
      | Some n \<Rightarrow>
          st_fmt (n_stat n) = S_IFLNK \<and> lock_target n \<noteq> c_str pid \<and>
          (isdigit_str (lock_target n) \<longrightarrow> lock_target n \<notin> set (w_procs w)))"

text \<open>
  The lock routine for an open in the words of section 4.3: call the try-lock in a loop,
  sleeping between busy answers (\<open>dd_lock_wait\<close>); after success verify that the \<open>time\<close>
  item exists and parses. If it does not: unlink \<^verbatim>\<open>.lock\<close> immediately (fatal on failure);
  if the caller passed the flag or this has happened \<open>NO_TIME_FILE_COUNT\<close> times, fail with
  \<open>EISDIR\<close>; otherwise sleep \<open>NO_TIME_FILE_USLEEP\<close> and retry the whole lock sequence.
  \<open>happened\<close> is the number of times the \<open>time\<close> item was found missing, the present round
  included; the first argument bounds the rounds of the loops as in \<open>dd_lock\<close>.
\<close>

fun spec_lock_open ::
    "nat \<Rightarrow> nat \<Rightarrow> dump_dir \<Rightarrow> dd_flag set \<Rightarrow> string \<Rightarrow> world
      \<Rightarrow> (int \<times> dump_dir \<times> world) res option" where
  "spec_lock_open 0 happened dd flags pid w = None"
| "spec_lock_open (Suc n) happened dd flags pid w =
     (case dd_lock_wait (Suc n) dd WAIT_FOR_OTHER_PROCESS_USLEEP pid w of
        None \<Rightarrow> None
      | Some (r, w1) \<Rightarrow>
          if r < 0 then Some (Ret (r, dd, w1))
          else (case parse_time_file_at (dd_fd dd) FILENAME_TIME w1 of (t, w2) \<Rightarrow>
            if 0 \<le> t then Some (Ret (0, dd\<lparr>dd_time := t, locked := True\<rparr>, w2))
            else (case unlinkat (dd_fd dd) ''.lock'' w2 of (u, w3) \<Rightarrow>
              if u \<noteq> 0 then Some Die
              else if DD_DONT_WAIT_FOR_LOCK \<in> flags \<or> happened = unat NO_TIME_FILE_COUNT
                   then Some (Ret (-1, dd\<lparr>dd_time := t\<rparr>, w3\<lparr>w_errno := EISDIR\<rparr>))
                   else spec_lock_open n (happened + 1) (dd\<lparr>dd_time := t\<rparr>) flags pid
                          (usleep NO_TIME_FILE_USLEEP w3))))"

text \<open>The lines of a text: the stretches between newlines; a final newline ends the last
  line and starts no new one.\<close>

function text_lines :: "string \<Rightarrow> string list" where
  "text_lines s =
     (if s = [] then []
      else takeWhile (\<lambda>c. c \<noteq> CHR 0x0A) s # text_lines (drop 1 (dropWhile (\<lambda>c. c \<noteq> CHR 0x0A) s)))"
  by pat_completeness auto
termination
proof (relation "measure length")
  show "wf (measure length)" by simp
next
  fix s :: string
  assume "s \<noteq> []"
  then have "length (drop 1 (dropWhile (\<lambda>c. c \<noteq> CHR 0x0A) s)) < length s"
    by (cases s) (auto simp: less_Suc_eq_le length_dropWhile_le intro: le_trans [OF diff_le_self])
  then show "(drop 1 (dropWhile (\<lambda>c. c \<noteq> CHR 0x0A) s), s) \<in> measure length" by simp
qed

declare text_lines.simps [simp del]

text \<open>The last line that starts with the prefix, without the prefix.\<close>

definition last_with_prefix :: "string \<Rightarrow> string list \<Rightarrow> string option" where
  "last_with_prefix prefix ls =
     (case filter (\<lambda>l. take (length prefix) l = prefix) ls of
        [] \<Rightarrow> None
      | m # ms \<Rightarrow> Some (drop (length prefix) (last (m # ms))))"

text \<open>The fields of a line in the specification's words. The line is split on
  whitespace; \<open>token_rests\<close> lists, for every token, the rest of the line from that token
  on. A token \<open>URL=x\<close> sets the URL to \<open>x\<close>; the first token that starts with \<open>MSG=\<close>
  takes the rest of the line as the message and ends the parse; other tokens are
  ignored.\<close>

function token_rests :: "string \<Rightarrow> string list" where
  "token_rests s =
     (if dropWhile isspace s = [] then []
      else dropWhile isspace s # token_rests (dropWhile (\<lambda>c. \<not> isspace c) (dropWhile isspace s)))"
  by pat_completeness auto
termination
  by (relation "measure length")
     (use skip_shorter in \<open>auto simp: skip_whitespace_def skip_non_whitespace_def\<close>)

declare token_rests.simps [simp del]

fun spec_fields :: "string list \<Rightarrow> report_result \<Rightarrow> report_result" where
  "spec_fields [] r = r"
| "spec_fields (t # ts) r =
     (if take 4 t = ''MSG='' then r\<lparr>msg := Some (drop 4 t)\<rparr>
      else spec_fields ts
             (if take 4 t = ''URL=''
              then r\<lparr>url := Some (drop 4 (takeWhile (\<lambda>c. \<not> isspace c) t))\<rparr> else r))"

definition spec_parse_reported_line :: "string \<Rightarrow> report_result" where
  "spec_parse_reported_line s = spec_fields (token_rests s) \<lparr>url = None, msg = None\<rparr>"

text \<open>The rule of \<open>add_reported_to\<close> in the specification's words, on the text loaded
  from the file (\<open>None\<close>: no file) and the new line: nothing is saved (\<open>None\<close>) when a
  line of the text equals the new line; otherwise the text, ended by a newline if it has
  none, followed by the line and a newline, is saved.\<close>

definition spec_add_reported_to :: "string option \<Rightarrow> string \<Rightarrow> string option" where
  "spec_add_reported_to loaded line =
     (case loaded of
        None \<Rightarrow> Some (line @ [CHR 0x0A])
      | Some text \<Rightarrow>
          if line \<in> set (text_lines text) then None
          else Some ((if text \<noteq> [] \<and> last text \<noteq> CHR 0x0A then text @ [CHR 0x0A] else text)
                     @ line @ [CHR 0x0A]))"

text \<open>The bytes of the \<open>reported_to\<close> file of a world, and the text the loader makes of
  them.\<close>

definition log_bytes :: "world \<Rightarrow> string option" where
  "log_bytes w = map_option n_data (w_ents w FILENAME_REPORTED_TO)"

definition loaded_log :: "world \<Rightarrow> string option" where
  "loaded_log w = map_option text_of (log_bytes w)"

section \<open>Example inputs\<close>

definition ex_dstat :: stat where
  "ex_dstat = \<lparr>st_fmt = S_IFDIR, st_perm = 488, st_nlink = 2, st_uid = 0, st_gid = 0\<rparr>"

definition ex_file :: "string \<Rightarrow> node" where
  "ex_file bytes =
     \<lparr>n_stat = \<lparr>st_fmt = S_IFREG, st_perm = 416, st_nlink = 1, st_uid = 0, st_gid = 0\<rparr>,
      n_data = bytes\<rparr>"

definition ex_hardlinked :: "string \<Rightarrow> node" where
  "ex_hardlinked bytes =
     \<lparr>n_stat = \<lparr>st_fmt = S_IFREG, st_perm = 416, st_nlink = 2, st_uid = 0, st_gid = 0\<rparr>,
      n_data = bytes\<rparr>"

definition ex_symlink :: "string \<Rightarrow> node" where
  "ex_symlink target =
     \<lparr>n_stat = \<lparr>st_fmt = S_IFLNK, st_perm = 511, st_nlink = 1, st_uid = 0, st_gid = 0\<rparr>,
      n_data = target\<rparr>"

definition ex_subdir :: node where
  "ex_subdir =
     \<lparr>n_stat = \<lparr>st_fmt = S_IFDIR, st_perm = 488, st_nlink = 2, st_uid = 0, st_gid = 0\<rparr>,
      n_data = []\<rparr>"

text \<open>A quiet world: descriptor 3 is the problem directory, the caller is root with pid
  4242.\<close>

definition ex_world :: "(string \<rightharpoonup> node) \<Rightarrow> world" where
  "ex_world ents =
     \<lparr>w_errno = E0, w_fds = [(3, FDir)], w_dstat = ex_dstat, w_ents = ents, w_direrr = E0,
      w_procs = [''1'', ''4242''], w_pid = 4242, w_euid = 0, w_egid = 0, w_umask = 18,
      w_eio = False, w_paths = Map.empty, w_passwd = Map.empty, w_group = Map.empty,
      w_sched = [], w_slept = []\<rparr>"

definition ex_dd :: dump_dir where
  "ex_dd = \<lparr>dd_dirname = ''/var/tmp/abrt/ccpp-1'', dd_fd = 3, locked = True, dd_time = -1,
     dd_uid = 0, dd_gid = 0, mode = 416\<rparr>"

text \<open>A world with a problem directory of group 100 at a path, a file at another, and two
  users; \<open>alice\<close> is listed in group 100.\<close>

definition ex_accounts :: world where
  "ex_accounts =
     (ex_world Map.empty)
       \<lparr>w_paths := [''/var/spool/abrt/ccpp-1'' \<mapsto>
                      \<lparr>st_fmt = S_IFDIR, st_perm = 488, st_nlink = 2, st_uid = 0, st_gid = 100\<rparr>,
                    ''/etc/passwd'' \<mapsto>
                      \<lparr>st_fmt = S_IFREG, st_perm = 420, st_nlink = 1, st_uid = 0, st_gid = 0\<rparr>],
        w_passwd := [1000 \<mapsto> \<lparr>pw_name = ''alice'', pw_gid = 1000\<rparr>,
                     1001 \<mapsto> \<lparr>pw_name = ''bob'', pw_gid = 1001\<rparr>],
        w_group := [100 \<mapsto> \<lparr>gr_name = ''abrt'', gr_mem = Some [''alice'']\<rparr>]\<rparr>"

text \<open>Two logs: one with two records of the reporter \<open>B\<close>, one whose second line starts
  with \<open>b\<close>.\<close>

definition ex_log :: string where
  "ex_log = ''B: URL=u1'' @ [CHR 0x0A] @ ''B: x URL=u2 MSG=m n'' @ [CHR 0x0A]"

definition ex_log2 :: string where
  "ex_log2 = ''a'' @ [CHR 0x0A] @ ''b URL=x'' @ [CHR 0x0A]"

section \<open>Facts about the environment\<close>

lemma env_step_quiet: "quiet w \<Longrightarrow> env_step w = w"
  by (simp add: quiet_def env_step_def)

lemma first_free_fresh:
  "card (set ks \<inter> {c..}) \<le> k \<Longrightarrow> first_free ks k c \<notin> set ks"
proof (induction k arbitrary: c)
  case 0
  then have "set ks \<inter> {c..} = {}" by simp
  then show ?case by auto
next
  case (Suc k)
  show ?case
  proof (cases "c \<in> set ks")
    case True
    have "set ks \<inter> {c + 1..} = (set ks \<inter> {c..}) - {c}" by auto
    with True Suc.prems have "card (set ks \<inter> {c + 1..}) \<le> k" by simp
    with Suc.IH True show ?thesis by simp
  next
    case False
    then show ?thesis by simp
  qed
qed

lemma first_free_ge: "c \<le> first_free ks k c"
proof (induction k arbitrary: c)
  case 0
  show ?case by simp
next
  case (Suc k)
  from Suc [of "c + 1"] show ?case by simp
qed

lemma fresh_fd_unused: "map_of (w_fds w) (fresh_fd w) = None"
proof -
  have "card (set (map fst (w_fds w)) \<inter> {0..}) \<le> card (set (map fst (w_fds w)))"
    by (rule card_mono) auto
  also have "\<dots> \<le> length (map fst (w_fds w))" by (rule card_length)
  finally have "fresh_fd w \<notin> set (map fst (w_fds w))"
    unfolding fresh_fd_def using first_free_fresh [of "map fst (w_fds w)" 0 "length (w_fds w)"] by simp
  then show ?thesis by (simp add: map_of_eq_None_iff)
qed

lemma fresh_fd_nonneg: "0 \<le> fresh_fd w"
  unfolding fresh_fd_def by (rule first_free_ge)

lemma filter_absent_key: "k \<notin> fst ` set al \<Longrightarrow> filter (\<lambda>p. fst p \<noteq> k) al = al"
  by (induction al) auto

lemma filter_fresh_fd: "filter (\<lambda>p. fst p \<noteq> fresh_fd w) (w_fds w) = w_fds w"
  using fresh_fd_unused [of w] by (simp add: map_of_eq_None_iff filter_absent_key)

lemma fresh_fd_cong: "w_fds w' = w_fds w \<Longrightarrow> fresh_fd w' = fresh_fd w"
  by (simp add: fresh_fd_def)

lemma env_apply_frame:
  "w_fds (env_apply w a) = w_fds w"
  "w_errno (env_apply w a) = w_errno w"
  "w_slept (env_apply w a) = w_slept w"
  "w_sched (env_apply w a) = w_sched w"
  by (cases a; simp)+

lemma foldl_env_apply_frame:
  "w_fds (foldl env_apply w b) = w_fds w"
  "w_errno (foldl env_apply w b) = w_errno w"
  "w_slept (foldl env_apply w b) = w_slept w"
  "w_sched (foldl env_apply w b) = w_sched w"
  by (induction b arbitrary: w; simp add: env_apply_frame)+

lemma env_step_frame [simp]:
  "w_fds (env_step w) = w_fds w"
  "w_errno (env_step w) = w_errno w"
  "w_slept (env_step w) = w_slept w"
  by (simp_all add: env_step_def foldl_env_apply_frame split: list.splits)

lemma at_err_env_step [simp]: "at_err (env_step w) fd = at_err w fd"
  by (simp add: at_err_def)

lemma at_err_errno [simp]: "at_err (w\<lparr>w_errno := e\<rparr>) fd = at_err w fd"
  by (simp add: at_err_def)

lemma at_err_range: "at_err w fd \<in> {E0, EBADF, EACCES, ENOTDIR}"
  by (simp add: at_err_def split: option.splits fobj.splits)

lemma at_err_E0: "(at_err w fd = E0) = (map_of (w_fds w) fd = Some FDir)"
  by (auto simp: at_err_def split: option.splits fobj.splits)

section \<open>Secure open\<close>

lemma secure_openat_read_einval_iff:
  "((fst (secure_openat_read dir_fd name w) = -1 \<and>
     w_errno (snd (secure_openat_read dir_fd name w)) = EINVAL) \<longleftrightarrow>
    (case openat_rdonly dir_fd name False w of (fd, w1) \<Rightarrow>
       0 \<le> fd \<and> (\<exists>st. fst (fstat fd w1) = Some st \<and> (\<not> is_reg st \<or> 1 < st_nlink st))))"
proof (cases "at_err w dir_fd = E0")
  case False
  then show ?thesis
    using at_err_range [of w dir_fd]
    by (auto simp: secure_openat_read_def openat_rdonly_def Let_def fails_def)
next
  case True
  show ?thesis
  proof (cases "w_ents (env_step w) name")
    case None
    with True show ?thesis
      by (simp add: secure_openat_read_def openat_rdonly_def Let_def fails_def)
  next
    case (Some n)
    show ?thesis
    proof (cases "st_fmt (n_stat n) = S_IFLNK")
      case True
      with Some \<open>at_err w dir_fd = E0\<close> show ?thesis
        by (simp add: secure_openat_read_def openat_rdonly_def Let_def fails_def)
    next
      case False
      with Some \<open>at_err w dir_fd = E0\<close> show ?thesis
        using fresh_fd_nonneg [of "env_step w"]
        by (auto simp: secure_openat_read_def openat_rdonly_def Let_def new_fd_def fstat_def
            close_def fails_def)
    qed
  qed
qed

lemma secure_openat_read_hardlink:
  assumes "quiet w" "at_err w dir_fd = E0" "w_ents w name = Some n"
    and "\<not> is_reg (n_stat n) \<and> st_fmt (n_stat n) \<noteq> S_IFLNK \<or> is_reg (n_stat n) \<and> 1 < st_nlink (n_stat n)"
  shows "secure_openat_read dir_fd name w = (-1, w\<lparr>w_errno := EINVAL\<rparr>)"
proof -
  have q: "quiet (w\<lparr>w_fds := (fresh_fd w, FNode n) # w_fds w\<rparr>)"
    using assms(1) by (simp add: quiet_def)
  have q2: "quiet (w\<lparr>w_fds := (fresh_fd w, FNode n) # w_fds w, w_errno := EINVAL\<rparr>)"
    using assms(1) by (simp add: quiet_def)
  have lnk: "st_fmt (n_stat n) \<noteq> S_IFLNK" using assms(4) by (auto simp: is_reg_def)
  have neg: "\<not> fresh_fd w < 0" using fresh_fd_nonneg [of w] by simp
  show ?thesis
    using assms lnk neg
    by (auto simp: secure_openat_read_def openat_rdonly_def Let_def new_fd_def fstat_def
        close_def fails_def env_step_quiet q q2 filter_fresh_fd)
qed

lemma secure_openat_read_ok:
  assumes "quiet w" "at_err w dir_fd = E0" "w_ents w name = Some n"
    and "is_reg (n_stat n)" "st_nlink (n_stat n) \<le> 1"
  shows "secure_openat_read dir_fd name w =
           (fresh_fd w, w\<lparr>w_fds := (fresh_fd w, FNode n) # w_fds w\<rparr>)"
proof -
  have q: "quiet (w\<lparr>w_fds := (fresh_fd w, FNode n) # w_fds w\<rparr>)"
    using assms(1) by (simp add: quiet_def)
  have lnk: "st_fmt (n_stat n) \<noteq> S_IFLNK" using assms(4) by (auto simp: is_reg_def)
  have neg: "\<not> fresh_fd w < 0" using fresh_fd_nonneg [of w] by simp
  show ?thesis
    using assms lnk neg
    by (auto simp: secure_openat_read_def openat_rdonly_def Let_def new_fd_def fstat_def
        close_def fails_def env_step_quiet q)
qed

section \<open>The timestamp parser\<close>

lemma isdigit_str_iff: "isdigit_str s = (s \<noteq> [] \<and> list_all isdigit s)"
  by (induction s rule: isdigit_str.induct) (auto simp: isdigit_def)

lemma decimal_snoc: "decimal (ds @ [c]) = 10 * decimal ds + (int (byte c) - 48)"
  by (simp add: decimal_def)

lemma decimal_nonneg: "list_all isdigit ds \<Longrightarrow> 0 \<le> decimal ds"
proof (induction ds rule: rev_induct)
  case Nil
  show ?case by (simp add: decimal_def)
next
  case (snoc c ds)
  then show ?case by (simp add: decimal_snoc isdigit_def)
qed

lemma strtoll_digits:
  assumes "s \<noteq> []" "list_all isdigit s"
  shows "strtoll s = (if decimal s > LLONG_MAX then (LLONG_MAX, [], True) else (decimal s, [], False))"
proof -
  have d: "isdigit (hd s)" using assms by (cases s) auto
  then have ns: "\<not> isspace (hd s)" and nm: "hd s \<noteq> CHR ''-''" and np: "hd s \<noteq> CHR ''+''"
    by (auto simp: isdigit_def isspace_def byte_def)
  have t: "dropWhile isspace s = s" using ns assms(1) by (cases s) auto
  have tk: "takeWhile isdigit s = s" and dr: "dropWhile isdigit s = []"
    using assms(2) by (simp_all add: list_all_iff)
  show ?thesis
    unfolding strtoll_def t Let_def using assms(1) nm np by (simp add: tk dr)
qed

lemma parse_time_buf_eq:
  "fst (parse_time_buf bytes) =
     (if c_str (strip_nl bytes) \<noteq> [] \<and> list_all isdigit (c_str (strip_nl bytes)) \<and>
         decimal (c_str (strip_nl bytes)) < MAX_TIME_T
      then decimal (c_str (strip_nl bytes)) else -1)"
proof -
  have st: "take (if length bytes > 0 \<and> bytes ! (length bytes - 1) = CHR 0x0A
                  then length bytes - 1 else length bytes) bytes = strip_nl bytes"
    by (cases "bytes = []") (auto simp: strip_nl_def last_conv_nth butlast_conv_take)
  define s where "s = c_str (strip_nl bytes)"
  have m: "MAX_TIME_T = LLONG_MAX" by (simp add: MAX_TIME_T_def LLONG_MAX_def sizeof_time_t_def)
  show ?thesis
  proof (cases "s \<noteq> [] \<and> list_all isdigit s")
    case True
    then show ?thesis
      unfolding parse_time_buf_def Let_def st s_def [symmetric]
      by (auto simp: strtoll_digits isdigit_str_iff m)
  next
    case False
    then have "\<not> isdigit_str s" by (simp add: isdigit_str_iff)
    with False show ?thesis
      unfolding parse_time_buf_def Let_def st s_def [symmetric]
      by (auto split: prod.splits)
  qed
qed

lemma parse_time_file_at_quiet:
  assumes "quiet w" "at_err w dir_fd = E0" "w_ents w name = Some n"
    and "is_reg (n_stat n)" "st_nlink (n_stat n) \<le> 1" "\<not> w_eio w"
  shows "fst (parse_time_file_at dir_fd name w) =
           (if length (n_data n) < time_buf_size then fst (parse_time_buf (n_data n)) else -1)"
proof -
  let ?w1 = "w\<lparr>w_fds := (fresh_fd w, FNode n) # w_fds w\<rparr>"
  have q: "quiet ?w1" using assms(1) by (simp add: quiet_def)
  have neg: "\<not> fresh_fd w < 0" using fresh_fd_nonneg [of w] by simp
  have nd: "\<not> is_dir (n_stat n)" using assms(4) by (simp add: is_dir_def is_reg_def)
  have rd: "read (fresh_fd w) time_buf_size ?w1 = (Some (take time_buf_size (n_data n)), ?w1)"
    using assms(6) nd by (simp add: read_def env_step_quiet q Let_def)
  show ?thesis
    using assms neg
    by (auto simp: parse_time_file_at_def secure_openat_read_ok rd split: prod.splits)
qed


section \<open>Existence test, secure open, deletion of an item\<close>

text \<open>
  Claim C10. For a valid name, \<open>dd_exist\<close> returns true exactly when the no-follow stat
  of the name relative to the directory descriptor succeeds and reports a regular file
  or a directory. In particular, where the entry is a symbolic link (whatever its target,
  so also a dangling one) the answer is false.
\<close>

theorem dd_exist_regular_or_directory:
  assumes "str_is_correct_filename name"
  shows "\<exists>b w'. dd_exist dd name w = Ret (b, w') \<and>
           (b \<longleftrightarrow> (\<exists>st. fst (fstatat_nofollow (dd_fd dd) name w) = Some st \<and>
                         (st_fmt st = S_IFREG \<or> st_fmt st = S_IFDIR))) \<and>
           (\<forall>n. quiet w \<and> map_of (w_fds w) (dd_fd dd) = Some FDir \<and> w_ents w name = Some n \<and>
                 st_fmt (n_stat n) = S_IFLNK \<longrightarrow> \<not> b \<and> w' = w)"
  using assms
  by (auto simp: dd_exist_def exist_file_dir_at_def is_dir_def is_reg_def fstatat_nofollow_def
      Let_def env_step_quiet at_err_def split: prod.splits option.splits)

theorem dd_exist_witness:
  "str_is_correct_filename ''lnk'' \<and>
   dd_exist ex_dd ''lnk'' (ex_world [''lnk'' \<mapsto> ex_symlink ''nowhere'', ''time'' \<mapsto> ex_file ''0'']) =
     Ret (False, ex_world [''lnk'' \<mapsto> ex_symlink ''nowhere'', ''time'' \<mapsto> ex_file ''0'']) \<and>
   dd_exist ex_dd ''time'' (ex_world [''lnk'' \<mapsto> ex_symlink ''nowhere'', ''time'' \<mapsto> ex_file ''0'']) =
     Ret (True, ex_world [''lnk'' \<mapsto> ex_symlink ''nowhere'', ''time'' \<mapsto> ex_file ''0''])"
  using dd_exist_regular_or_directory
    [of "''lnk''" ex_dd "ex_world [''lnk'' \<mapsto> ex_symlink ''nowhere'', ''time'' \<mapsto> ex_file ''0'']"]
  by (auto simp: str_is_correct_filename_def quiet_def ex_world_def ex_dd_def ex_symlink_def
      dd_exist_def exist_file_dir_at_def fstatat_nofollow_def env_step_def at_err_def Let_def
      ex_file_def is_reg_def is_dir_def)

lemma parse_time_file_at_refused:
  assumes "secure_openat_read dir_fd name w = (-1, w1)"
  shows "parse_time_file_at dir_fd name w = (-1, w1)"
  using assms by (simp add: parse_time_file_at_def)

text \<open>
  Claim C7. \<open>secure_openat_read\<close> returns \<open>-1\<close> with \<open>errno\<close> \<open>EINVAL\<close> exactly when the
  no-follow open succeeds and the \<open>fstat\<close> of the new descriptor reports something that
  is not a regular file, or a link count above one. In particular, in a quiet world a
  regular file with more than one link is refused, no descriptor stays open, and the
  reader built on it (\<open>parse_time_file_at\<close>) fails as well.
\<close>

theorem secure_openat_read_refusal:
  "((fst (secure_openat_read dir_fd name w) = -1 \<and>
     w_errno (snd (secure_openat_read dir_fd name w)) = EINVAL) \<longleftrightarrow>
    (case openat_rdonly dir_fd name False w of (fd, w1) \<Rightarrow>
       0 \<le> fd \<and> (\<exists>st. fst (fstat fd w1) = Some st \<and> (\<not> is_reg st \<or> 1 < st_nlink st)))) \<and>
   (\<forall>n. quiet w \<and> map_of (w_fds w) dir_fd = Some FDir \<and> w_ents w name = Some n \<and>
        is_reg (n_stat n) \<and> 1 < st_nlink (n_stat n) \<longrightarrow>
        secure_openat_read dir_fd name w = (-1, w\<lparr>w_errno := EINVAL\<rparr>) \<and>
        parse_time_file_at dir_fd name w = (-1, w\<lparr>w_errno := EINVAL\<rparr>))"
proof (intro conjI allI impI)
  show "(fst (secure_openat_read dir_fd name w) = -1 \<and>
     w_errno (snd (secure_openat_read dir_fd name w)) = EINVAL) \<longleftrightarrow>
    (case openat_rdonly dir_fd name False w of (fd, w1) \<Rightarrow>
       0 \<le> fd \<and> (\<exists>st. fst (fstat fd w1) = Some st \<and> (\<not> is_reg st \<or> 1 < st_nlink st)))"
    by (rule secure_openat_read_einval_iff)
next
  fix n
  assume h: "quiet w \<and> map_of (w_fds w) dir_fd = Some FDir \<and> w_ents w name = Some n \<and>
        is_reg (n_stat n) \<and> 1 < st_nlink (n_stat n)"
  then show r: "secure_openat_read dir_fd name w = (-1, w\<lparr>w_errno := EINVAL\<rparr>)"
    by (intro secure_openat_read_hardlink [where n = n]) (simp_all add: at_err_E0)
  then show "parse_time_file_at dir_fd name w = (-1, w\<lparr>w_errno := EINVAL\<rparr>)"
    by (rule parse_time_file_at_refused)
qed

theorem secure_openat_read_refusal_witness:
  "secure_openat_read 3 ''time'' (ex_world [''time'' \<mapsto> ex_hardlinked ''1700000000'']) =
     (-1, (ex_world [''time'' \<mapsto> ex_hardlinked ''1700000000''])\<lparr>w_errno := EINVAL\<rparr>) \<and>
   parse_time_file_at 3 ''time'' (ex_world [''time'' \<mapsto> ex_hardlinked ''1700000000'']) =
     (-1, (ex_world [''time'' \<mapsto> ex_hardlinked ''1700000000''])\<lparr>w_errno := EINVAL\<rparr>) \<and>
   fst (secure_openat_read 3 ''time'' (ex_world [''time'' \<mapsto> ex_file ''1700000000''])) = 0"
proof -
  have ok: "fst (secure_openat_read 3 ''time'' (ex_world [''time'' \<mapsto> ex_file ''1700000000''])) = 0"
    by (subst secure_openat_read_ok [where n = "ex_file ''1700000000''"])
       (simp_all add: quiet_def ex_world_def at_err_def ex_file_def is_reg_def fresh_fd_def)
  show ?thesis
    using secure_openat_read_refusal
      [of 3 "''time''" "ex_world [''time'' \<mapsto> ex_hardlinked ''1700000000'']"] ok
    by (simp add: quiet_def ex_world_def ex_hardlinked_def is_reg_def)
qed

text \<open>
  Claim C9. On a locked handle and a valid name, \<open>dd_delete_item\<close> returns 0 when the
  unlink succeeds and also when it fails with \<open>ENOENT\<close>, and \<open>-1\<close> for every other
  failure of the unlink. So in a quiet world the deletion of an absent item is a success
  that changes no entry, the deletion of a removable entry removes it, and a directory is
  refused.
\<close>

theorem dd_delete_item_absent_is_success:
  assumes "locked dd" "str_is_correct_filename name"
  shows "\<exists>r w'. dd_delete_item dd name w = Ret (r, w') \<and>
           (r = 0 \<or> r = -1) \<and>
           (r = 0 \<longleftrightarrow> fst (unlinkat (dd_fd dd) name w) = 0 \<or>
                         w_errno (snd (unlinkat (dd_fd dd) name w)) = ENOENT) \<and>
           (quiet w \<and> map_of (w_fds w) (dd_fd dd) = Some FDir \<and> w_ents w name = None \<longrightarrow>
              r = 0 \<and> w_ents w' = w_ents w) \<and>
           (\<forall>n. quiet w \<and> map_of (w_fds w) (dd_fd dd) = Some FDir \<and> w_ents w name = Some n \<and>
                 \<not> is_dir (n_stat n) \<and> w_direrr w = E0 \<longrightarrow>
              r = 0 \<and> w_ents w' = (w_ents w)(name := None)) \<and>
           (\<forall>n. quiet w \<and> map_of (w_fds w) (dd_fd dd) = Some FDir \<and> w_ents w name = Some n \<and>
                 is_dir (n_stat n) \<longrightarrow> r = -1 \<and> w_errno w' = EISDIR)"
  using assms
  by (auto simp: dd_delete_item_def unlinkat_def Let_def fails_def env_step_quiet at_err_E0
      split: prod.splits option.splits if_splits)

theorem dd_delete_item_witness:
  "locked ex_dd \<and> str_is_correct_filename ''core'' \<and>
   dd_delete_item ex_dd ''core'' (ex_world [''time'' \<mapsto> ex_file ''0'']) =
     Ret (0, (ex_world [''time'' \<mapsto> ex_file ''0''])\<lparr>w_errno := ENOENT\<rparr>) \<and>
   dd_delete_item ex_dd ''time'' (ex_world [''time'' \<mapsto> ex_file ''0'']) =
     Ret (0, (ex_world [''time'' \<mapsto> ex_file ''0''])\<lparr>w_ents := Map.empty\<rparr>) \<and>
   dd_delete_item ex_dd ''sub'' (ex_world [''sub'' \<mapsto> ex_subdir]) =
     Ret (-1, (ex_world [''sub'' \<mapsto> ex_subdir])\<lparr>w_errno := EISDIR\<rparr>)"
  using dd_delete_item_absent_is_success [of ex_dd "''core''" "ex_world [''time'' \<mapsto> ex_file ''0'']"]
  by (simp add: ex_dd_def str_is_correct_filename_def dd_delete_item_def unlinkat_def Let_def
      fails_def env_step_def ex_world_def at_err_def ex_file_def ex_subdir_def is_dir_def)

text \<open>
  Claim C2. The claim fails on the code for a file with an embedded NUL. The parser works
  on the C string in its buffer, that is on the bytes before the first NUL: a \<open>time\<close>
  file holding the four bytes \<open>1\<close>, \<open>2\<close>, NUL, \<open>x\<close> is accepted with the value 12,
  although its content is not a sequence of digits (\<open>parse_time_buf_eq\<close> is the
  general statement: the digits test and the bound apply to \<open>c_str (strip_nl bytes)\<close>).
\<close>

theorem parse_time_file_at_embedded_nul:
  "fst (parse_time_file_at 3 ''time''
          (ex_world [''time'' \<mapsto> ex_file [CHR ''1'', CHR ''2'', CHR 0x00, CHR ''x'']])) = 12 \<and>
   \<not> list_all isdigit (strip_nl [CHR ''1'', CHR ''2'', CHR 0x00, CHR ''x''])"
proof -
  have "fst (parse_time_file_at 3 ''time''
          (ex_world [''time'' \<mapsto> ex_file [CHR ''1'', CHR ''2'', CHR 0x00, CHR ''x'']])) =
        fst (parse_time_buf [CHR ''1'', CHR ''2'', CHR 0x00, CHR ''x''])"
    by (subst parse_time_file_at_quiet [where n = "ex_file [CHR ''1'', CHR ''2'', CHR 0x00, CHR ''x'']"])
       (simp_all add: quiet_def ex_world_def at_err_def ex_file_def is_reg_def time_buf_size_def
          sizeof_time_t_def)
  then show ?thesis
    by (simp add: parse_time_buf_eq strip_nl_def c_str_def isdigit_def byte_def decimal_def
        MAX_TIME_T_def sizeof_time_t_def)
qed


section \<open>The text loader\<close>

text \<open>After \<open>k\<close> newlines the accumulator \<open>oneline\<close> is the word \<open>mask k\<close>: all ones from the
  32nd newline on, which is \<open>-1\<close> as a signed number.\<close>

lemma oneline_step: "push_bit 1 (mask k) OR 1 = (mask (Suc k) :: 32 word)"
  by (simp add: mask_Suc_double push_bit_eq_mult or.commute mult.commute)

lemma oneline_step2: "mask k * 2 OR 1 = (mask (Suc k) :: 32 word)"
  using oneline_step [of k] by (simp add: push_bit_eq_mult)

lemma oneline_zero: "(mask k = (0 :: 32 word)) = (k = 0)"
  by (simp add: mask_eq_0_iff)

lemma oneline_one: "(mask k = (1 :: 32 word)) = (k = 1)"
proof
  assume h: "mask k = (1 :: 32 word)"
  have "k \<noteq> 0"
  proof
    assume "k = 0"
    with h show False by simp
  qed
  moreover have "\<not> 2 \<le> k"
  proof
    assume "2 \<le> k"
    then have "bit (mask k :: 32 word) 1" by (simp add: bit_mask_iff)
    with h show False by (simp add: bit_1_iff)
  qed
  ultimately show "k = 1" by simp
next
  assume "k = 1"
  then show "mask k = (1 :: 32 word)" by simp
qed

lemma oneline_full: "32 \<le> k \<Longrightarrow> mask k = (- 1 :: 32 word)"
  by (rule bit_word_eqI) (simp add: bit_mask_iff)

lemma oneline_sint_small:
  assumes "k \<le> 31"
  shows "sint (mask k :: 32 word) = 2 ^ k - 1"
proof -
  have "(2::int) ^ k \<le> 2 ^ 31" using assms by (intro power_increasing) simp_all
  then have b: "(2::int) ^ k - 1 < 2 ^ 31" by simp
  have c: "- (2 ^ 31) \<le> (2::int) ^ k - 1"
  proof -
    have "(0::int) < 2 ^ k" and "(0::int) < 2 ^ 31" by simp_all
    then show ?thesis by linarith
  qed
  have "sint (mask k :: 32 word) = signed_take_bit 31 (mask k :: int)"
    using assms by (simp add: sint_uint uint_mask_eq min_def)
  also have "\<dots> = mask k"
    using b c by (intro signed_take_bit_int_eq_self) (simp_all only: mask_eq_exp_minus_1)
  finally show ?thesis by (simp add: mask_eq_exp_minus_1)
qed

lemma oneline_sint: "(1 \<le> sint (mask k :: 32 word)) = (1 \<le> k \<and> k \<le> 31)"
proof (cases "32 \<le> k")
  case True
  then show ?thesis by (simp add: oneline_full)
next
  case False
  then have k: "k \<le> 31" by simp
  show ?thesis
  proof (cases "k = 0")
    case True
    then show ?thesis by simp
  next
    case False
    then have "(2::int) ^ 1 \<le> 2 ^ k" by (intro power_increasing) simp_all
    with k False show ?thesis by (simp add: oneline_sint_small)
  qed
qed


lemma load_text_loop_mask:
  "load_text_loop bytes (mask k) buf = (mask (k + newlines bytes), buf @ sanitize bytes)"
proof (induction bytes arbitrary: k buf)
  case Nil
  show ?case by (simp add: newlines_def sanitize_def)
next
  case (Cons c rest)
  show ?case
  proof (cases "c = CHR 0x0A")
    case True
    have "load_text_loop (c # rest) (mask k) buf = load_text_loop rest (mask (Suc k)) (buf @ [c])"
      using True by (simp add: oneline_step2 isspace_def byte_def)
    also have "\<dots> = (mask (Suc k + newlines rest), (buf @ [c]) @ sanitize rest)"
      by (rule Cons.IH)
    finally show ?thesis
      using True by (simp add: newlines_def sanitize_def kept_def nul_to_space_def isspace_def byte_def)
  next
    case False
    have "load_text_loop (c # rest) (mask k) buf =
          load_text_loop rest (mask k) (if kept (nul_to_space c) then buf @ [nul_to_space c] else buf)"
      using False by (simp add: kept_def nul_to_space_def Let_def)
    also have "\<dots> = (mask (k + newlines rest),
                        (if kept (nul_to_space c) then buf @ [nul_to_space c] else buf) @ sanitize rest)"
      by (rule Cons.IH)
    finally show ?thesis
      using False by (simp add: newlines_def sanitize_def)
  qed
qed

lemma newline_kept: "kept (CHR 0x0A)"
  by (simp add: kept_def isspace_def byte_def)

lemma newlines_sanitize: "newlines (sanitize bytes) = newlines bytes"
proof (induction bytes)
  case Nil
  show ?case by (simp add: sanitize_def)
next
  case (Cons c rest)
  then show ?case
    using newline_kept by (auto simp: sanitize_def newlines_def nul_to_space_def)
qed

lemma newlines_pos_iff: "(0 < newlines s) = (CHR 0x0A \<in> set s)"
  by (induction s) (auto simp: newlines_def)

lemma sanitize_nonempty: "0 < newlines bytes \<Longrightarrow> sanitize bytes \<noteq> []"
  using newlines_pos_iff [of "sanitize bytes"] by (auto simp: newlines_sanitize)

lemma text_of_eq:
  "text_of bytes =
     (if newlines bytes = 0 then sanitize bytes
      else if last (sanitize bytes) = CHR 0x0A
           then (if newlines bytes = 1 then butlast (sanitize bytes) else sanitize bytes)
           else (if newlines bytes \<le> 31 then sanitize bytes @ [CHR 0x0A] else sanitize bytes))"
proof -
  have loop: "load_text_loop bytes 0 [] = (mask (newlines bytes), sanitize bytes)"
    using load_text_loop_mask [of bytes 0 "[]"] by simp
  show ?thesis
  proof (cases "newlines bytes = 0")
    case True
    then show ?thesis by (simp add: text_of_def loop load_text_finish_def)
  next
    case False
    then have ne: "sanitize bytes \<noteq> []" by (simp add: sanitize_nonempty)
    then have lst: "sanitize bytes ! (length (sanitize bytes) - Suc 0) = last (sanitize bytes)"
      by (simp add: last_conv_nth)
    from False show ?thesis
      by (simp add: text_of_def loop load_text_finish_def Let_def oneline_zero oneline_one
          oneline_sint lst butlast_conv_take)
  qed
qed

lemma text_of_no_nul: "CHR 0x00 \<notin> set (text_of bytes)"
proof -
  have "CHR 0x00 \<notin> set (sanitize bytes)"
    by (auto simp: sanitize_def nul_to_space_def)
  then show ?thesis
    by (auto simp: text_of_eq dest: in_set_butlastD)
qed


section \<open>Item read and write in a quiet world\<close>

lemma valid_name_no_slash:
  "str_is_correct_filename name \<Longrightarrow> \<not> (name \<noteq> [] \<and> hd name = CHR ''/'')"
  by (cases name) (auto simp: str_is_correct_filename_def)

lemma quiet_upd [simp]:
  "quiet (w\<lparr>w_fds := f\<rparr>) = quiet w"
  "quiet (w\<lparr>w_errno := e\<rparr>) = quiet w"
  "quiet (w\<lparr>w_ents := en\<rparr>) = quiet w"
  by (simp_all add: quiet_def)

lemma load_text_file_at_quiet:
  assumes "quiet w" "map_of (w_fds w) dir_fd = Some FDir" "\<not> (name \<noteq> [] \<and> hd name = CHR ''/'')"
    and "w_ents w name = Some n" "is_reg (n_stat n)" "\<not> w_eio w"
  shows "load_text_file_at dir_fd name flags w = Ret (Some (text_of (n_data n)), w)"
proof -
  let ?w1 = "w\<lparr>w_fds := (fresh_fd w, FNode n) # w_fds w\<rparr>"
  have lnk: "st_fmt (n_stat n) \<noteq> S_IFLNK" and nd: "\<not> is_dir (n_stat n)"
    using assms(5) by (auto simp: is_reg_def is_dir_def)
  have op: "openat_rdonly dir_fd name (DD_OPEN_FOLLOW \<in> flags) w = (fresh_fd w, ?w1)"
    using assms lnk by (simp add: openat_rdonly_def Let_def env_step_quiet at_err_E0 new_fd_def)
  have ne: "fresh_fd w \<noteq> -1" using fresh_fd_nonneg [of w] by simp
  have rd: "fgetc_all (fresh_fd w) ?w1 = (n_data n, ?w1)"
    using assms nd by (simp add: fgetc_all_def Let_def env_step_quiet)
  have cl: "snd (close (fresh_fd w) ?w1) = w"
    using assms(1) by (simp add: close_def Let_def env_step_quiet filter_fresh_fd)
  show ?thesis
    using assms(3) ne by (simp add: load_text_file_at_def op load_text_from_file_descriptor_def rd cl text_of_def)
qed

lemma load_text_file_at_absent:
  assumes "quiet w" "map_of (w_fds w) dir_fd = Some FDir" "\<not> (name \<noteq> [] \<and> hd name = CHR ''/'')"
    and "w_ents w name = None"
  shows "load_text_file_at dir_fd name flags w =
           Ret (if DD_LOAD_TEXT_RETURN_NULL_ON_FAILURE \<in> flags then None else Some [],
                w\<lparr>w_errno := ENOENT\<rparr>)"
  using assms
  by (simp add: load_text_file_at_def openat_rdonly_def Let_def env_step_quiet at_err_E0 fails_def
      load_text_from_file_descriptor_def)

lemma fresh_fd_upd [simp]:
  "fresh_fd (w\<lparr>w_ents := en\<rparr>) = fresh_fd w"
  "fresh_fd (w\<lparr>w_errno := e\<rparr>) = fresh_fd w"
  by (simp_all add: fresh_fd_def)

lemma wr_target_new [simp]:
  "wr_target (w\<lparr>w_fds := (fd, FWr name) # fds\<rparr>) fd = Some name"
  "wr_target (w\<lparr>w_fds := (fd, FWr name) # fds, w_ents := en\<rparr>) fd = Some name"
  by (simp_all add: wr_target_def)

lemma save_binary_file_at_quiet:
  assumes "may_save dd name w" "\<not> (name \<noteq> [] \<and> hd name = CHR ''/'')" "sz < 2 ^ 32"
  shows "save_binary_file_at (dd_fd dd) name data sz (dd_uid dd) (dd_gid dd) (mode dd) w =
           Ret (True, w\<lparr>w_ents := (w_ents w)(name \<mapsto> saved_node dd w (take sz data)),
                       w_errno := (if w_ents w name = None then ENOENT else w_errno w)\<rparr>)"
proof -
  have q: "quiet w" and d: "map_of (w_fds w) (dd_fd dd) = Some FDir" and de: "w_direrr w = E0"
    and io: "\<not> w_eio w"
    using assms(1) by (simp_all add: may_save_def)
  have neg: "\<not> fresh_fd w < 0" using fresh_fd_nonneg [of w] by simp
  have m: "int sz mod 4294967296 = int sz" using assms(3) by simp
  show ?thesis
  proof (cases "w_ents w name")
    case None
    show ?thesis
      using assms q d de io neg None m
      by (auto simp: save_binary_file_at_def unlinkat_def openat_creat_excl_def fchown_def
          fchmod_def full_write_def close_def Let_def env_step_quiet at_err_E0 fails_def
          new_fd_def upd_entry_def saved_node_def filter_fresh_fd may_save_def)
  next
    case (Some n)
    show ?thesis
      using assms q d de io neg Some m
      by (auto simp: save_binary_file_at_def unlinkat_def openat_creat_excl_def fchown_def
          fchmod_def full_write_def close_def Let_def env_step_quiet at_err_E0 fails_def
          new_fd_def upd_entry_def saved_node_def filter_fresh_fd may_save_def)
  qed
qed


lemma dd_save_text_quiet:
  assumes "may_save dd name w" "locked dd" "str_is_correct_filename name"
    and "length (c_str data) < 2 ^ 32"
  shows "dd_save_text dd name data w =
           Ret (w\<lparr>w_ents := (w_ents w)(name \<mapsto> saved_node dd w (c_str data)),
                  w_errno := (if w_ents w name = None then ENOENT else w_errno w)\<rparr>)"
  using assms valid_name_no_slash [OF assms(3)]
  by (simp add: dd_save_text_def save_binary_file_at_quiet)

lemma dd_load_text_ext_quiet:
  assumes "quiet w" "map_of (w_fds w) (dd_fd dd) = Some FDir" "str_is_correct_filename name"
    and "name \<noteq> ''release''" "w_ents w name = Some n" "is_reg (n_stat n)" "\<not> w_eio w"
  shows "dd_load_text_ext dd name flags w = Ret (Some (text_of (n_data n)), w)"
  using assms valid_name_no_slash [OF assms(3)]
  by (simp add: dd_load_text_ext_def load_text_file_at_quiet)

lemma dd_load_text_ext_absent:
  assumes "quiet w" "map_of (w_fds w) (dd_fd dd) = Some FDir" "str_is_correct_filename name"
    and "name \<noteq> ''release''" "w_ents w name = None"
  shows "dd_load_text_ext dd name flags w =
           Ret (if DD_LOAD_TEXT_RETURN_NULL_ON_FAILURE \<in> flags then None else Some [],
                w\<lparr>w_errno := ENOENT\<rparr>)"
  using assms valid_name_no_slash [OF assms(3)]
  by (simp add: dd_load_text_ext_def load_text_file_at_absent)

lemma c_str_no_nul: "CHR 0x00 \<notin> set s \<Longrightarrow> c_str s = s"
  by (auto simp: c_str_def takeWhile_eq_all_conv)

lemma kept_no_nul: "list_all kept s \<Longrightarrow> CHR 0x00 \<notin> set s"
  by (auto simp: list_all_iff kept_def isspace_def byte_def)

lemma sanitize_kept: "list_all kept s \<Longrightarrow> sanitize s = s"
proof -
  assume k: "list_all kept s"
  then have "map nul_to_space s = s"
    using kept_no_nul [OF k] by (intro map_idI) (auto simp: nul_to_space_def)
  with k show ?thesis by (simp add: sanitize_def list_all_iff)
qed

lemma text_of_kept:
  assumes "list_all kept s" "newlines s \<le> 31 \<or> last s = CHR 0x0A"
  shows "text_of s = spec_newline_rule s"
proof -
  have "newlines s > 0 \<Longrightarrow> s \<noteq> []" by (auto simp: newlines_def)
  then show ?thesis
    using assms by (auto simp: text_of_eq sanitize_kept spec_newline_rule_def)
qed

lemma save_then_load:
  assumes "may_save dd name w" "locked dd" "str_is_correct_filename name" "name \<noteq> ''release''"
    and "length (c_str data) < 2 ^ 32"
  shows "\<exists>w1. dd_save_text dd name data w = Ret w1 \<and>
              dd_load_text dd name w1 = Ret (Some (text_of (c_str data)), w1)"
proof -
  let ?w1 = "w\<lparr>w_ents := (w_ents w)(name \<mapsto> saved_node dd w (c_str data)),
                w_errno := (if w_ents w name = None then ENOENT else w_errno w)\<rparr>"
  have s: "dd_save_text dd name data w = Ret ?w1"
    using assms by (simp add: dd_save_text_quiet)
  have l: "dd_load_text dd name ?w1 = Ret (Some (text_of (n_data (saved_node dd w (c_str data)))), ?w1)"
    unfolding dd_load_text_def using assms(1,3,4)
    by (intro dd_load_text_ext_quiet) (simp_all add: may_save_def saved_node_def is_reg_def quiet_def)
  show ?thesis using s l by (simp add: saved_node_def)
qed

section \<open>The round trip and the sanitization\<close>

lemma load_after_save_eq:
  assumes "may_save dd name w" "locked dd" "str_is_correct_filename name" "name \<noteq> ''release''"
    and "length (c_str data) < 2 ^ 32"
  shows "load_after_save dd name data w = Ret (Some (text_of (c_str data)))"
proof -
  obtain w1 where "dd_save_text dd name data w = Ret w1"
    and "dd_load_text dd name w1 = Ret (Some (text_of (c_str data)), w1)"
    using save_then_load [OF assms] by blast
  then show ?thesis by (simp add: load_after_save_def)
qed

text \<open>
  Claim C3, amended. Where the save goes through (\<open>may_save\<close>), for a locked handle, a
  valid item name other than \<open>release\<close>, and a payload shorter than \<open>2^32\<close> bytes whose bytes
  are all whitespace or not below \<open>' '\<close>, and which has at most 31 newlines or ends in
  one: the load after the save yields the payload under the newline rule (a final newline
  that is the only one is removed; a payload with a newline that does not end in one
  gets one; anything else comes back as it is).
\<close>

theorem save_text_load_text_round_trip:
  assumes "may_save dd name w" "locked dd" "str_is_correct_filename name" "name \<noteq> ''release''"
    and "length data < 2 ^ 32" "list_all kept data"
    and "newlines data \<le> 31 \<or> last data = CHR 0x0A"
  shows "load_after_save dd name data w = Ret (Some (spec_newline_rule data))"
proof -
  have c: "c_str data = data" using assms(6) by (simp add: c_str_no_nul kept_no_nul)
  show ?thesis
    using load_after_save_eq [OF assms(1-4), of data] assms(5-7) by (simp add: c text_of_kept)
qed

theorem save_text_load_text_round_trip_witness:
  "may_save ex_dd ''analyzer'' (ex_world [''time'' \<mapsto> ex_file ''1700000000'']) \<and>
   locked ex_dd \<and> str_is_correct_filename ''analyzer'' \<and> ''analyzer'' \<noteq> ''release'' \<and>
   length [CHR ''c'', CHR ''c'', CHR ''p'', CHR ''p'', CHR 0x0A] < (2::nat) ^ 32 \<and>
   list_all kept [CHR ''c'', CHR ''c'', CHR ''p'', CHR ''p'', CHR 0x0A] \<and>
   newlines [CHR ''c'', CHR ''c'', CHR ''p'', CHR ''p'', CHR 0x0A] \<le> 31 \<and>
   load_after_save ex_dd ''analyzer'' [CHR ''c'', CHR ''c'', CHR ''p'', CHR ''p'', CHR 0x0A]
     (ex_world [''time'' \<mapsto> ex_file ''1700000000'']) = Ret (Some ''ccpp'')"
  using save_text_load_text_round_trip
    [of ex_dd "''analyzer''" "ex_world [''time'' \<mapsto> ex_file ''1700000000'']"
        "[CHR ''c'', CHR ''c'', CHR ''p'', CHR ''p'', CHR 0x0A]"]
  by (simp add: may_save_def quiet_def ex_world_def ex_dd_def str_is_correct_filename_def
      kept_def isspace_def byte_def newlines_def spec_newline_rule_def ID_NONE_def)

text \<open>
  Claim C3 as stated fails by design for the item name \<open>release\<close>: the reader maps that
  name to \<open>os_release\<close> (compatibility with old dumps), the writer does not. After
  \<open>Fedora\<close> is saved as \<open>release\<close> in an empty directory, the load of \<open>release\<close>
  finds no \<open>os_release\<close> and returns the empty string.
\<close>

theorem save_text_load_text_release_counterexample:
  "locked ex_dd \<and> str_is_correct_filename ''release'' \<and>
   load_after_save ex_dd ''release'' ''Fedora'' (ex_world Map.empty) = Ret (Some [])"
proof -
  have s: "dd_save_text ex_dd ''release'' ''Fedora'' (ex_world Map.empty) =
           Ret ((ex_world Map.empty)\<lparr>w_ents := [''release'' \<mapsto> saved_node ex_dd (ex_world Map.empty) ''Fedora''],
                                     w_errno := ENOENT\<rparr>)"
    by (subst dd_save_text_quiet)
       (simp_all add: may_save_def quiet_def ex_world_def ex_dd_def str_is_correct_filename_def
          c_str_def)
  have v: "str_is_correct_filename ''os_release''"
    by (simp add: str_is_correct_filename_def)
  have l: "dd_load_text ex_dd ''release''
             ((ex_world Map.empty)\<lparr>w_ents := [''release'' \<mapsto> saved_node ex_dd (ex_world Map.empty) ''Fedora''],
                                     w_errno := ENOENT\<rparr>) =
           Ret (Some [], (ex_world Map.empty)\<lparr>w_ents := [''release'' \<mapsto> saved_node ex_dd (ex_world Map.empty) ''Fedora''],
                                     w_errno := ENOENT\<rparr>)"
    using valid_name_no_slash [OF v]
    by (simp add: dd_load_text_def dd_load_text_ext_def FILENAME_OS_RELEASE_def
        str_is_correct_filename_def load_text_file_at_absent quiet_def ex_world_def ex_dd_def)
  show ?thesis
    by (simp add: load_after_save_def s l) (simp add: ex_dd_def str_is_correct_filename_def)
qed

text \<open>
  Claim C4. The claim fails on the code from the 32nd newline on. \<open>oneline\<close> is a 32-bit
  \<^verbatim>\<open>int\<close> that takes one more low bit with every newline; after 32 of them it is all
  ones, that is \<open>-1\<close>, and the test \<^verbatim>\<open>oneline >= 1\<close> that guards the appended newline
  fails. A file of 32 newlines followed by \<open>x\<close> is returned without a final newline,
  where the claim (and the comment in the code: every unterminated last line of a
  content with newlines is fixed) has one appended. \<open>text_of_eq\<close> is the general
  statement of what the loader returns.
\<close>

theorem load_text_32_newlines_unterminated:
  "dd_load_text ex_dd ''backtrace''
     (ex_world [''backtrace'' \<mapsto> ex_file (replicate 32 (CHR 0x0A) @ ''x'')]) =
     Ret (Some (replicate 32 (CHR 0x0A) @ ''x''),
          ex_world [''backtrace'' \<mapsto> ex_file (replicate 32 (CHR 0x0A) @ ''x'')]) \<and>
   spec_load_text (replicate 32 (CHR 0x0A) @ ''x'') = replicate 32 (CHR 0x0A) @ ''x'' @ [CHR 0x0A]"
proof -
  have t: "text_of (replicate 32 (CHR 0x0A) @ ''x'') = replicate 32 (CHR 0x0A) @ ''x''"
    by (simp add: text_of_eq newlines_def sanitize_def kept_def nul_to_space_def isspace_def byte_def)
  have s: "spec_load_text (replicate 32 (CHR 0x0A) @ ''x'') = replicate 32 (CHR 0x0A) @ ''x'' @ [CHR 0x0A]"
    by (simp add: spec_load_text_def spec_newline_rule_def newlines_def sanitize_def kept_def
        nul_to_space_def isspace_def byte_def)
  have l: "dd_load_text ex_dd ''backtrace''
     (ex_world [''backtrace'' \<mapsto> ex_file (replicate 32 (CHR 0x0A) @ ''x'')]) =
     Ret (Some (text_of (n_data (ex_file (replicate 32 (CHR 0x0A) @ ''x'')))),
          ex_world [''backtrace'' \<mapsto> ex_file (replicate 32 (CHR 0x0A) @ ''x'')])"
    unfolding dd_load_text_def
    by (rule dd_load_text_ext_quiet)
       (simp_all add: quiet_def ex_world_def ex_dd_def str_is_correct_filename_def ex_file_def
          is_reg_def)
  show ?thesis using l t s by (simp add: ex_file_def)
qed


section \<open>The accessibility query\<close>

lemma env_apply_accounts:
  "w_paths (env_apply w a) = w_paths w"
  "w_passwd (env_apply w a) = w_passwd w"
  "w_group (env_apply w a) = w_group w"
  by (cases a; simp)+

lemma foldl_env_apply_accounts:
  "w_paths (foldl env_apply w b) = w_paths w"
  "w_passwd (foldl env_apply w b) = w_passwd w"
  "w_group (foldl env_apply w b) = w_group w"
  by (induction b arbitrary: w; simp add: env_apply_accounts)+

lemma env_step_accounts [simp]:
  "w_paths (env_step w) = w_paths w"
  "w_passwd (env_step w) = w_passwd w"
  "w_group (env_step w) = w_group w"
  by (simp_all add: env_step_def foldl_env_apply_accounts split: list.splits)

lemma uid_in_group_iff: "uid_in_group uid gid w = group_member w uid gid"
  by (auto simp: uid_in_group_def group_member_def list_ex_iff split: option.splits)

lemma uid_in_group_cong:
  "w_passwd w' = w_passwd w \<Longrightarrow> w_group w' = w_group w \<Longrightarrow> uid_in_group uid gid w' = uid_in_group uid gid w"
  by (auto simp: uid_in_group_def split: option.splits)

text \<open>
  Claim C8, amended. When the path opens as a directory, \<open>dump_dir_accessible_by_uid\<close>
  returns 1 exactly when the uid is 0, or the directory's mode has the world-read bit, or
  the rule the build selects holds (\<open>DUMP_DIR_OWNED_BY_USER > 0\<close>: the uid is the owner
  of the directory; otherwise: the uid is a member of the directory's group), and it
  leaves \<open>errno\<close> 0. When the path does not open as a directory it returns 0 and leaves
  \<open>errno\<close> \<open>ENOTDIR\<close>, whatever error the failing call had reported.
\<close>

theorem dump_dir_accessible_by_uid_rule:
  "(\<forall>st. w_paths w dirname = Some st \<and> is_dir st \<longrightarrow>
      fst (dump_dir_accessible_by_uid pol dirname uid w) =
        (if uid = 0 \<or> st_perm st AND S_IROTH \<noteq> 0 \<or>
            (if pol > 0 then uid = st_uid st else group_member w uid (st_gid st))
         then 1 else 0) \<and>
      w_errno (snd (dump_dir_accessible_by_uid pol dirname uid w)) = E0) \<and>
   (w_paths w dirname = None \<or> (\<exists>st. w_paths w dirname = Some st \<and> \<not> is_dir st) \<longrightarrow>
      fst (dump_dir_accessible_by_uid pol dirname uid w) = 0 \<and>
      w_errno (snd (dump_dir_accessible_by_uid pol dirname uid w)) = ENOTDIR)"
proof (intro conjI allI impI)
  fix st
  assume h: "w_paths w dirname = Some st \<and> is_dir st"
  then have lnk: "st_fmt st \<noteq> S_IFLNK" by (auto simp: is_dir_def)
  have neg: "\<not> fresh_fd (env_step w) < 0" using fresh_fd_nonneg [of "env_step w"] by simp
  have g: "uid_in_group uid (st_gid st)
             (env_step (env_step w\<lparr>w_fds := (fresh_fd (env_step w), FNode \<lparr>n_stat = st, n_data = []\<rparr>) # w_fds w\<rparr>)\<lparr>w_errno := E0\<rparr>)
           = group_member w uid (st_gid st)"
    by (subst uid_in_group_cong [where w = w]) (simp_all add: uid_in_group_iff)
  show "fst (dump_dir_accessible_by_uid pol dirname uid w) =
        (if uid = 0 \<or> st_perm st AND S_IROTH \<noteq> 0 \<or>
            (if pol > 0 then uid = st_uid st else group_member w uid (st_gid st))
         then 1 else 0)"
    using h lnk neg
    by (simp add: dump_dir_accessible_by_uid_def dump_dir_stat_for_uid_def open_directory_def
        Let_def new_fd_def fdump_dir_stat_for_uid_def fstat_def g
        DD_STAT_ACCESSIBLE_BY_UID_def DD_STAT_OWNED_BY_UID_def and_one_eq split: prod.splits)
  show "w_errno (snd (dump_dir_accessible_by_uid pol dirname uid w)) = E0"
    using h lnk neg
    by (simp add: dump_dir_accessible_by_uid_def dump_dir_stat_for_uid_def open_directory_def
        Let_def new_fd_def fdump_dir_stat_for_uid_def fstat_def close_def
        DD_STAT_ACCESSIBLE_BY_UID_def DD_STAT_OWNED_BY_UID_def split: prod.splits)
next
  assume h: "w_paths w dirname = None \<or> (\<exists>st. w_paths w dirname = Some st \<and> \<not> is_dir st)"
  then have "\<exists>e. open_directory dirname w = fails e (env_step w)"
    by (auto simp: open_directory_def Let_def)
  then obtain e where o: "open_directory dirname w = fails e (env_step w)" by blast
  show "fst (dump_dir_accessible_by_uid pol dirname uid w) = 0"
    by (simp add: dump_dir_accessible_by_uid_def dump_dir_stat_for_uid_def o fails_def)
  show "w_errno (snd (dump_dir_accessible_by_uid pol dirname uid w)) = ENOTDIR"
    by (simp add: dump_dir_accessible_by_uid_def dump_dir_stat_for_uid_def o fails_def)
qed

theorem dump_dir_accessible_by_uid_witness:
  "fst (dump_dir_accessible_by_uid 0 ''/var/spool/abrt/ccpp-1'' 1000 ex_accounts) = 1 \<and>
   fst (dump_dir_accessible_by_uid 0 ''/var/spool/abrt/ccpp-1'' 1001 ex_accounts) = 0 \<and>
   fst (dump_dir_accessible_by_uid 1 ''/var/spool/abrt/ccpp-1'' 1000 ex_accounts) = 0 \<and>
   fst (dump_dir_accessible_by_uid 0 ''/var/spool/abrt/ccpp-1'' 0 ex_accounts) = 1 \<and>
   w_errno (snd (dump_dir_accessible_by_uid 0 ''/var/spool/abrt/ccpp-1'' 1000 ex_accounts)) = E0 \<and>
   fst (dump_dir_accessible_by_uid 0 ''/etc/passwd'' 0 ex_accounts) = 0 \<and>
   w_errno (snd (dump_dir_accessible_by_uid 0 ''/etc/passwd'' 0 ex_accounts)) = ENOTDIR"
  using dump_dir_accessible_by_uid_rule [of ex_accounts "''/var/spool/abrt/ccpp-1''" 0 1000]
    dump_dir_accessible_by_uid_rule [of ex_accounts "''/var/spool/abrt/ccpp-1''" 0 1001]
    dump_dir_accessible_by_uid_rule [of ex_accounts "''/var/spool/abrt/ccpp-1''" 1 1000]
    dump_dir_accessible_by_uid_rule [of ex_accounts "''/var/spool/abrt/ccpp-1''" 0 0]
    dump_dir_accessible_by_uid_rule [of ex_accounts "''/etc/passwd''" 0 0]
  by (simp add: ex_accounts_def ex_world_def is_dir_def S_IROTH_def group_member_def)

text \<open>
  Claim C8 as stated fails where it has \<open>errno\<close> preserved: for a path that does not
  exist, \<open>errno\<close> is 0 before the call, the failing \<^verbatim>\<open>open\<close> reports \<open>ENOENT\<close>, and the
  caller finds \<open>ENOTDIR\<close>, which the code assigns on this path.
\<close>

theorem dump_dir_accessible_by_uid_errno_counterexample:
  "w_errno (ex_world Map.empty) = E0 \<and>
   w_errno (snd (open_directory ''/nonexistent'' (ex_world Map.empty))) = ENOENT \<and>
   dump_dir_accessible_by_uid 0 ''/nonexistent'' 1000 (ex_world Map.empty) =
     (0, (ex_world Map.empty)\<lparr>w_errno := ENOTDIR\<rparr>)"
  by (simp add: dump_dir_accessible_by_uid_def dump_dir_stat_for_uid_def open_directory_def
      Let_def fails_def env_step_def ex_world_def)

section \<open>The \<open>reported_to\<close> log: lookup\<close>

lemma length_takeWhile_dropWhile:
  "length (takeWhile P xs) + length (dropWhile P xs) = length xs"
  by (induction xs) auto

lemma parse_loop_refines:
  "CHR 0x00 \<notin> set line \<Longrightarrow> parse_reported_loop line r = spec_fields (token_rests line) r"
proof (induction line r rule: parse_reported_loop.induct)
  case (1 line result)
  let ?l = "skip_whitespace line"
  have nn: "CHR 0x00 \<notin> set ?l"
    using "1.prems" by (auto simp: skip_whitespace_def dest: set_dropWhileD)
  then have c: "c_str ?l = ?l" by (auto simp: c_str_def takeWhile_eq_all_conv)
  have m: "strncmp_eq ?l ''MSG='' 4 = (take 4 ?l = ''MSG='')"
    and u: "strncmp_eq ?l ''URL='' 4 = (take 4 ?l = ''URL='')"
  proof -
    have k: "c_str ''MSG='' = ''MSG=''" "c_str ''URL='' = ''URL=''" by (simp_all add: c_str_def)
    show "strncmp_eq ?l ''MSG='' 4 = (take 4 ?l = ''MSG='')"
      and "strncmp_eq ?l ''URL='' 4 = (take 4 ?l = ''URL='')"
      unfolding strncmp_eq_def c k by simp_all
  qed
  have len: "length ?l - length (skip_non_whitespace ?l) = length (takeWhile (\<lambda>c. \<not> isspace c) ?l)"
    using length_takeWhile_dropWhile [of "\<lambda>c. \<not> isspace c" ?l]
    by (simp add: skip_non_whitespace_def)
  show ?case
  proof (cases "?l = []")
    case True
    then show ?thesis
      by (subst parse_reported_loop.simps, subst token_rests.simps) (simp add: skip_whitespace_def)
  next
    case False
    show ?thesis
    proof (cases "take 4 ?l = ''MSG=''")
      case True
      with False show ?thesis
        by (subst parse_reported_loop.simps, subst token_rests.simps)
           (simp add: m skip_whitespace_def [symmetric])
    next
      case nm: False
      have nn2: "CHR 0x00 \<notin> set (skip_non_whitespace ?l)"
        using nn by (auto simp: skip_non_whitespace_def dest: set_dropWhileD)
      have ih: "parse_reported_loop (skip_non_whitespace ?l)
                  (if strncmp_eq ?l ''URL='' 4
                   then result\<lparr>url := Some (take (length ?l - length (skip_non_whitespace ?l) - 4) (drop 4 ?l))\<rparr>
                   else result) =
                spec_fields (token_rests (skip_non_whitespace ?l))
                  (if strncmp_eq ?l ''URL='' 4
                   then result\<lparr>url := Some (take (length ?l - length (skip_non_whitespace ?l) - 4) (drop 4 ?l))\<rparr>
                   else result)"
        using "1.IH" False nm m nn2 by simp
      have dt: "take (length (takeWhile (\<lambda>c. \<not> isspace c) ?l) - 4) (drop 4 ?l) =
                drop 4 (takeWhile (\<lambda>c. \<not> isspace c) ?l)"
        by (metis drop_take takeWhile_eq_take)
      have ueq: "take (length ?l - (length (dropWhile (\<lambda>c. \<not> isspace c) ?l) + 4)) (drop 4 ?l) =
                 drop 4 (takeWhile (\<lambda>c. \<not> isspace c) ?l)"
      proof -
        have "length ?l - (length (dropWhile (\<lambda>c. \<not> isspace c) ?l) + 4) =
              length (takeWhile (\<lambda>c. \<not> isspace c) ?l) - 4"
          using length_takeWhile_dropWhile [of "\<lambda>c. \<not> isspace c" ?l] by arith
        then show ?thesis by (simp only: dt)
      qed
      show ?thesis
        using False nm
        by (subst parse_reported_loop.simps, subst token_rests.simps)
           (simp add: m ih skip_whitespace_def [symmetric], simp add: u ueq skip_non_whitespace_def)
    qed
  qed
qed


lemma to_eol_no_nul: "CHR 0x00 \<notin> set s \<Longrightarrow> to_eol s = length (takeWhile (\<lambda>c. c \<noteq> CHR 0x0A) s)"
  by (simp add: to_eol_def c_str_no_nul)

lemma strncmp_eq_no_nul:
  "CHR 0x00 \<notin> set s \<Longrightarrow> CHR 0x00 \<notin> set pf \<Longrightarrow>
   strncmp_eq s pf (length pf) = (take (length pf) s = pf)"
  by (simp add: strncmp_eq_def c_str_no_nul)

lemma take_prefix_line:
  assumes "CHR 0x0A \<notin> set pf"
  shows "(take (length pf) s = pf) = (take (length pf) (takeWhile (\<lambda>c. c \<noteq> CHR 0x0A) s) = pf)"
proof
  assume h: "take (length pf) s = pf"
  have s: "pf @ drop (length pf) s = s"
    using append_take_drop_id [of "length pf" s] h by simp
  have "takeWhile (\<lambda>c. c \<noteq> CHR 0x0A) (pf @ drop (length pf) s) =
        pf @ takeWhile (\<lambda>c. c \<noteq> CHR 0x0A) (drop (length pf) s)"
    using assms by (intro takeWhile_append2) auto
  then show "take (length pf) (takeWhile (\<lambda>c. c \<noteq> CHR 0x0A) s) = pf"
    by (simp add: s)
next
  assume h: "take (length pf) (takeWhile (\<lambda>c. c \<noteq> CHR 0x0A) s) = pf"
  define k where "k = length (takeWhile (\<lambda>c. c \<noteq> CHR 0x0A) s)"
  have tk: "takeWhile (\<lambda>c. c \<noteq> CHR 0x0A) s = take k s"
    unfolding k_def by (rule takeWhile_eq_take)
  have e: "take (min (length pf) k) s = pf" using h by (simp add: tk min.commute)
  then have "length (take (min (length pf) k) s) = length pf" by simp
  then have "min (length pf) k = length pf" by (simp add: min_def split: if_splits)
  with e show "take (length pf) s = pf" by simp
qed

lemma text_lines_Nil [simp]: "text_lines [] = []"
  by (simp add: text_lines.simps)

lemma text_lines_nonempty:
  "s \<noteq> [] \<Longrightarrow> text_lines s =
     takeWhile (\<lambda>c. c \<noteq> CHR 0x0A) s # text_lines (drop 1 (dropWhile (\<lambda>c. c \<noteq> CHR 0x0A) s))"
  by (subst text_lines.simps) simp

lemma last_with_prefix_Nil [simp]: "last_with_prefix pf [] = None"
  by (simp add: last_with_prefix_def)

lemma last_with_prefix_Cons:
  "last_with_prefix pf (l # ls) =
     (case last_with_prefix pf ls of
        Some r \<Rightarrow> Some r
      | None \<Rightarrow> (if take (length pf) l = pf then Some (drop (length pf) l) else None))"
  by (auto simp: last_with_prefix_def split: list.splits)

lemma c_str_upto_nul:
  assumes "f \<le> i" "i < length b" "b ! i = CHR 0x00" "take (Suc i) b' = take (Suc i) b"
  shows "c_str (drop f b') = c_str (drop f b)"
proof -
  have key: "\<And>x. take (Suc i) x = take (Suc i) b \<Longrightarrow>
               c_str (drop f x) = takeWhile (\<lambda>c. c \<noteq> CHR 0x00) (drop f (take (Suc i) b))"
  proof -
    fix x :: string
    assume t: "take (Suc i) x = take (Suc i) b"
    have lx: "Suc i \<le> length x"
    proof -
      have "length (take (Suc i) x) = length (take (Suc i) b)" by (simp only: t)
      then show ?thesis using assms(2) by (simp add: min_def split: if_splits)
    qed
    have "drop f (take (Suc i) x @ drop (Suc i) x) =
          drop f (take (Suc i) x) @ drop (f - length (take (Suc i) x)) (drop (Suc i) x)"
      by (rule drop_append)
    then have "drop f x = drop f (take (Suc i) x) @ drop (Suc i) x"
      using assms(1) lx by (simp add: min_def)
    moreover have "CHR 0x00 \<in> set (drop f (take (Suc i) b))"
    proof -
      have "drop f (take (Suc i) b) ! (i - f) = b ! i"
        using assms(1,2) by simp
      moreover have "i - f < length (drop f (take (Suc i) b))"
        using assms(1,2) by simp
      ultimately show ?thesis using assms(3) by (metis nth_mem)
    qed
    ultimately show "c_str (drop f x) = takeWhile (\<lambda>c. c \<noteq> CHR 0x00) (drop f (take (Suc i) b))"
      unfolding c_str_def using t by (simp add: takeWhile_append1)
  qed
  show ?thesis using key [of b'] key [of b] assms(4) by simp
qed


lemma c_str_update_nul:
  assumes "CHR 0x00 \<notin> set (take k xs)" "k < length xs"
  shows "c_str (xs[k := CHR 0x00]) = take k xs"
proof -
  have "xs[k := CHR 0x00] = take k xs @ CHR 0x00 # drop (Suc k) xs"
    using assms(2) by (rule upd_conv_take_nth_drop)
  then have "c_str (xs[k := CHR 0x00]) = takeWhile (\<lambda>c. c \<noteq> CHR 0x00) (take k xs)"
    by (simp add: c_str_def takeWhile_tail)
  also have "\<dots> = take k xs"
    using assms(1) by (auto simp: takeWhile_eq_all_conv)
  finally show ?thesis .
qed

lemma find_scan_result:
  "CHR 0x0A \<notin> set pf \<Longrightarrow> CHR 0x00 \<notin> set pf \<Longrightarrow>
   p \<le> length buf \<Longrightarrow> CHR 0x00 \<notin> set (drop p buf) \<Longrightarrow>
   (\<forall>f0. found = Some f0 \<longrightarrow> (\<exists>i. f0 \<le> i \<and> i < p \<and> buf ! i = CHR 0x00)) \<Longrightarrow>
   n = length pf \<Longrightarrow>
   (case find_scan buf pf n p found of (fo, b) \<Rightarrow> map_option (\<lambda>f. c_str (drop f b)) fo) =
   (case last_with_prefix pf (text_lines (drop p buf)) of
      Some r \<Rightarrow> Some r
    | None \<Rightarrow> map_option (\<lambda>f. c_str (drop f buf)) found)"
proof (induction buf pf n p found rule: find_scan.induct)
  case (1 buf pf n p found)
  note nlen = "1.prems"(6)
  note nlpf = "1.prems"(1) and nulpf = "1.prems"(2) and ple = "1.prems"(3)
    and nonul = "1.prems"(4) and inv = "1.prems"(5)
  let ?d = "drop p buf"
  let ?line = "takeWhile (\<lambda>c. c \<noteq> CHR 0x0A) ?d"
  let ?e = "length ?line"
  let ?q = "p + ?e"
  let ?len = "length pf"
  show ?case
  proof (cases "p = length buf")
    case True
    then show ?thesis
      by (subst find_scan.simps) simp
  next
    case False
    then have plt: "p < length buf" using ple by simp
    then have dne: "?d \<noteq> []" by simp
    have bp: "buf ! p \<noteq> CHR 0x00"
    proof -
      have "buf ! p \<in> set ?d" using plt by (metis Cons_nth_drop_Suc list.set_intros(1))
      with nonul show ?thesis by auto
    qed
    have eol: "to_eol ?d = ?e" using nonul by (rule to_eol_no_nul)
    have mt: "strncmp_eq ?d pf ?len = (take ?len ?line = pf)"
      using strncmp_eq_no_nul [OF nonul nulpf] take_prefix_line [OF nlpf, of ?d] by simp
    have ele: "?e \<le> length ?d" by (rule length_takeWhile_le)
    then have qle: "?q \<le> length buf" using plt by simp
    have lines: "text_lines ?d = ?line # text_lines (drop 1 (dropWhile (\<lambda>c. c \<noteq> CHR 0x0A) ?d))"
      using dne by (rule text_lines_nonempty)
    have dw: "dropWhile (\<lambda>c. c \<noteq> CHR 0x0A) ?d = drop ?q buf"
      by (simp add: dropWhile_eq_drop add.commute)
    have lrest: "drop ?len ?line = take (?e - ?len) (drop (p + ?len) buf)"
    proof -
      have "?line = take ?e ?d" by (rule takeWhile_eq_take)
      then have "drop ?len ?line = drop ?len (take ?e ?d)" by simp
      also have "\<dots> = take (?e - ?len) (drop ?len ?d)" by (rule drop_take)
      finally show ?thesis by (simp add: add.commute)
    qed
    have nonul2: "CHR 0x00 \<notin> set (drop (p + ?len) buf)"
      using nonul set_drop_subset_set_drop [of p "p + ?len" buf] by auto
    show ?thesis
    proof (cases "?q < length buf")
      case qlt: True
      have bq: "buf ! ?q \<noteq> CHR 0x00"
      proof -
        have "buf ! ?q \<in> set ?d"
          using qlt by (metis Cons_nth_drop_Suc le_add1 list.set_intros(1) set_drop_subset_set_drop subsetD)
        with nonul show ?thesis by auto
      qed
      let ?buf' = "buf[?q := CHR 0x00]"
      let ?found' = "if strncmp_eq ?d pf ?len then Some (p + ?len) else found"
      have step: "find_scan buf pf n p found = find_scan ?buf' pf ?len (?q + 1) ?found'"
        using plt bp qlt bq by (subst find_scan.simps) (simp add: eol nlen)
      have d1: "drop (?q + 1) ?buf' = drop 1 (dropWhile (\<lambda>c. c \<noteq> CHR 0x0A) ?d)"
        by (simp add: dw)
      have nonul': "CHR 0x00 \<notin> set (drop (?q + 1) ?buf')"
        using nonul set_drop_subset_set_drop [of p "?q + 1" buf] by auto
      have inv': "\<forall>f0. ?found' = Some f0 \<longrightarrow> (\<exists>i. f0 \<le> i \<and> i < ?q + 1 \<and> ?buf' ! i = CHR 0x00)"
      proof (intro allI impI)
        fix f0
        assume f: "?found' = Some f0"
        show "\<exists>i. f0 \<le> i \<and> i < ?q + 1 \<and> ?buf' ! i = CHR 0x00"
        proof (cases "strncmp_eq ?d pf ?len")
          case True
          then have "take ?len ?line = pf" using mt by simp
          then have "length (take ?len ?line) = ?len" by simp
          then have "?len \<le> ?e" by (simp add: min_def split: if_splits)
          moreover have "f0 = p + ?len" using f True by simp
          ultimately show ?thesis using qlt by (intro exI [of _ ?q]) simp
        next
          case False
          then have "found = Some f0" using f by simp
          then obtain i where i: "f0 \<le> i" "i < p" "buf ! i = CHR 0x00" using inv by blast
          then show ?thesis by (intro exI [of _ i]) simp
        qed
      qed
      have c1: "\<not> (length buf \<le> p \<or> buf ! p = CHR 0x00)" using plt bp by simp
      have c2: "?q < length buf \<and> buf ! ?q \<noteq> CHR 0x00" using qlt bq by simp
      have ple': "?q + 1 \<le> length ?buf'" using qlt by simp
      note ih = "1.IH" [unfolded eol nlen, OF c1 c2 nlpf nulpf ple' nonul' inv' refl]
      have tail: "map_option (\<lambda>f. c_str (drop f ?buf')) ?found' =
                  (if take ?len ?line = pf then Some (drop ?len ?line)
                   else map_option (\<lambda>f. c_str (drop f buf)) found)"
      proof (cases "take ?len ?line = pf")
        case True
        then have "length (take ?len ?line) = ?len" by simp
        then have le: "?len \<le> ?e" by (simp add: min_def split: if_splits)
        have "drop (p + ?len) ?buf' = (drop (p + ?len) buf)[?q - (p + ?len) := CHR 0x00]"
          using le by (intro drop_update_swap) simp
        moreover have "c_str ((drop (p + ?len) buf)[?e - ?len := CHR 0x00]) =
                       take (?e - ?len) (drop (p + ?len) buf)"
          using nonul2 qlt le by (intro c_str_update_nul) (auto dest: in_set_takeD)
        ultimately show ?thesis using True mt le by (simp add: lrest)
      next
        case False
        show ?thesis
        proof (cases found)
          case None
          then show ?thesis using False mt by simp
        next
          case (Some f0)
          then obtain i where i: "f0 \<le> i" "i < p" "buf ! i = CHR 0x00" using inv by blast
          have "c_str (drop f0 ?buf') = c_str (drop f0 buf)"
            using i plt by (intro c_str_upto_nul [where i = i]) (simp_all add: take_update_cancel)
          then show ?thesis using False mt Some by simp
        qed
      qed
      show ?thesis
        unfolding step ih d1 lines last_with_prefix_Cons tail
        by (simp split: option.splits)
    next
      case False
      then have qeq: "?q = length buf" using qle by simp
      have ret: "find_scan buf pf n p found =
                 ((if strncmp_eq ?d pf ?len then Some (p + ?len) else found), buf)"
        using plt bp False by (subst find_scan.simps) (simp add: eol nlen)
      have ld: "?line = ?d"
        using qeq plt by (metis takeWhile_eq_take add_diff_cancel_left' length_drop take_all
            le_refl)
      have rest: "text_lines (drop 1 (dropWhile (\<lambda>c. c \<noteq> CHR 0x0A) ?d)) = []"
        using qeq by (simp add: dw)
      have cs: "c_str (drop (p + ?len) buf) = drop ?len ?line"
        using nonul2 by (simp add: c_str_no_nul ld add.commute)
      show ?thesis
        unfolding ret lines rest last_with_prefix_Cons
        by (simp add: mt cs)
    qed
  qed
qed


lemma c_str_nul_free: "CHR 0x00 \<notin> set (c_str s)"
  by (auto simp: c_str_def dest: set_takeWhileD)

lemma parse_reported_line_refines:
  "CHR 0x00 \<notin> set line \<Longrightarrow> parse_reported_line line = spec_parse_reported_line line"
  by (simp add: parse_reported_line_def spec_parse_reported_line_def parse_loop_refines)

lemma find_in_text:
  assumes "CHR 0x0A \<notin> set pf" "CHR 0x00 \<notin> set pf" "CHR 0x00 \<notin> set text"
  shows "(case find_scan text pf (length pf) 0 None of
            (None, buf) \<Rightarrow> Ret (None, w)
          | (Some found, buf) \<Rightarrow> Ret (Some (parse_reported_line (c_str (drop found buf))), w)) =
         Ret (map_option spec_parse_reported_line (last_with_prefix pf (text_lines text)), w)"
proof -
  obtain fo b where fs: "find_scan text pf (length pf) 0 None = (fo, b)"
    by (cases "find_scan text pf (length pf) 0 None")
  have "(case find_scan text pf (length pf) 0 None of (fo, b) \<Rightarrow> map_option (\<lambda>f. c_str (drop f b)) fo) =
        (case last_with_prefix pf (text_lines (drop 0 text)) of
           Some r \<Rightarrow> Some r
         | None \<Rightarrow> map_option (\<lambda>f. c_str (drop f text)) None)"
    using assms by (intro find_scan_result) simp_all
  then have r: "map_option (\<lambda>f. c_str (drop f b)) fo = last_with_prefix pf (text_lines text)"
    by (simp add: fs split: option.splits)
  show ?thesis
  proof (cases fo)
    case None
    with r show ?thesis by (simp add: fs)
  next
    case (Some f)
    with r have "last_with_prefix pf (text_lines text) = Some (c_str (drop f b))" by simp
    then show ?thesis
      using Some by (simp add: fs parse_reported_line_refines c_str_nul_free)
  qed
qed

text \<open>
  Claim C6, amended. In a quiet world, for every content of \<open>reported_to\<close> and every
  prefix that holds no newline and is shorter than \<open>2 ^ 32\<close> bytes (its length is kept in
  an \<^verbatim>\<open>unsigned\<close>): \<open>find_in_reported_to\<close> takes the text the loader returns
  for the file, selects the last of its lines that starts with the prefix, and parses the
  rest of that line after the prefix; it returns null when no line starts with the prefix
  and when the file is absent. The parse is the one of the specification
  (\<open>spec_parse_reported_line\<close>): the rest is split on whitespace, a token \<open>URL=x\<close> sets
  the URL to \<open>x\<close> (a later one overwrites an earlier one), the first token that starts
  with \<open>MSG=\<close> takes the whole rest of the line as the message and ends the parse, and
  any other token is ignored.
\<close>

theorem find_in_reported_to_last_line:
  assumes "quiet w" "map_of (w_fds w) (dd_fd dd) = Some FDir" "\<not> w_eio w"
    and "CHR 0x0A \<notin> set prefix" "CHR 0x00 \<notin> set prefix" "length prefix < 2 ^ 32"
  shows "(w_ents w FILENAME_REPORTED_TO = None \<longrightarrow>
            find_in_reported_to dd prefix w = Ret (None, w\<lparr>w_errno := ENOENT\<rparr>)) \<and>
         (\<forall>n. w_ents w FILENAME_REPORTED_TO = Some n \<and> is_reg (n_stat n) \<longrightarrow>
            find_in_reported_to dd prefix w =
              Ret (map_option spec_parse_reported_line
                     (last_with_prefix prefix (text_lines (text_of (n_data n)))), w))"
proof (intro conjI allI impI)
  have v: "str_is_correct_filename FILENAME_REPORTED_TO"
    by (simp add: FILENAME_REPORTED_TO_def str_is_correct_filename_def)
  have nr: "FILENAME_REPORTED_TO \<noteq> ''release''" by (simp add: FILENAME_REPORTED_TO_def)
  {
    assume "w_ents w FILENAME_REPORTED_TO = None"
    then show "find_in_reported_to dd prefix w = Ret (None, w\<lparr>w_errno := ENOENT\<rparr>)"
      using assms(1,2) v nr by (simp add: find_in_reported_to_def dd_load_text_ext_absent)
  }
  fix n
  assume h: "w_ents w FILENAME_REPORTED_TO = Some n \<and> is_reg (n_stat n)"
  have l: "dd_load_text_ext dd FILENAME_REPORTED_TO
             {DD_FAIL_QUIETLY_ENOENT, DD_LOAD_TEXT_RETURN_NULL_ON_FAILURE} w =
           Ret (Some (text_of (n_data n)), w)"
    using assms(1-3) v nr h by (intro dd_load_text_ext_quiet) simp_all
  have cp: "c_str prefix = prefix" using assms(5) by (rule c_str_no_nul)
  have ln: "length prefix mod 2 ^ 32 = length prefix" using assms(6) by simp
  show "find_in_reported_to dd prefix w =
              Ret (map_option spec_parse_reported_line
                     (last_with_prefix prefix (text_lines (text_of (n_data n)))), w)"
    using find_in_text [OF assms(4) assms(5) text_of_no_nul [of "n_data n"], of w]
    unfolding find_in_reported_to_def l
    by (simp only: cp ln Let_def res.case prod.case option.case)
qed

lemma ex_log_text: "text_of ex_log = ex_log"
  by (simp add: text_of_eq ex_log_def newlines_def sanitize_def kept_def nul_to_space_def
      isspace_def byte_def)

theorem find_in_reported_to_witness:
  "find_in_reported_to ex_dd ''B: '' (ex_world [''reported_to'' \<mapsto> ex_file ex_log]) =
     Ret (Some \<lparr>url = Some ''u2'', msg = Some ''m n''\<rparr>,
          ex_world [''reported_to'' \<mapsto> ex_file ex_log]) \<and>
   find_in_reported_to ex_dd ''C: '' (ex_world [''reported_to'' \<mapsto> ex_file ex_log]) =
     Ret (None, ex_world [''reported_to'' \<mapsto> ex_file ex_log]) \<and>
   find_in_reported_to ex_dd ''B: '' (ex_world Map.empty) =
     Ret (None, (ex_world Map.empty)\<lparr>w_errno := ENOENT\<rparr>)"
proof -
  have tl: "text_lines ex_log = [''B: URL=u1'', ''B: x URL=u2 MSG=m n'']"
    by (simp add: ex_log_def text_lines.simps)
  have tr: "token_rests ''x URL=u2 MSG=m n'' = [''x URL=u2 MSG=m n'', ''URL=u2 MSG=m n'', ''MSG=m n'', ''n'']"
    by (simp add: token_rests.simps isspace_def byte_def)
  have p: "spec_parse_reported_line ''x URL=u2 MSG=m n'' = \<lparr>url = Some ''u2'', msg = Some ''m n''\<rparr>"
    by (simp add: spec_parse_reported_line_def tr isspace_def byte_def)
  show ?thesis
    using find_in_reported_to_last_line [of "ex_world [''reported_to'' \<mapsto> ex_file ex_log]" ex_dd "''B: ''"]
      find_in_reported_to_last_line [of "ex_world [''reported_to'' \<mapsto> ex_file ex_log]" ex_dd "''C: ''"]
      find_in_reported_to_last_line [of "ex_world Map.empty" ex_dd "''B: ''"]
    by (simp add: quiet_def ex_world_def ex_dd_def FILENAME_REPORTED_TO_def ex_file_def is_reg_def
        ex_log_text tl last_with_prefix_def p)
qed


text \<open>
  Claim C6 as stated fails for a prefix that holds a newline: the prefix is compared with
  the text that is left from a line start on, before that line is cut at its end. In the
  log with the lines \<open>a\<close> and \<open>b URL=x\<close> no line starts with the prefix \<open>a\<close>, newline,
  \<open>b\<close>, and yet a result comes back, parsed from the rest of the second line.
\<close>

theorem find_in_reported_to_newline_prefix_counterexample:
  "find_in_reported_to ex_dd [CHR ''a'', CHR 0x0A, CHR ''b'']
     (ex_world [''reported_to'' \<mapsto> ex_file ex_log2]) =
     Ret (Some \<lparr>url = Some ''x'', msg = None\<rparr>, ex_world [''reported_to'' \<mapsto> ex_file ex_log2]) \<and>
   text_lines ex_log2 = [''a'', ''b URL=x''] \<and>
   last_with_prefix [CHR ''a'', CHR 0x0A, CHR ''b''] (text_lines ex_log2) = None"
proof -
  have t: "text_of ex_log2 = ex_log2"
    by (simp add: text_of_eq ex_log2_def newlines_def sanitize_def kept_def nul_to_space_def
        isspace_def byte_def)
  have l: "dd_load_text_ext ex_dd FILENAME_REPORTED_TO
             {DD_FAIL_QUIETLY_ENOENT, DD_LOAD_TEXT_RETURN_NULL_ON_FAILURE}
             (ex_world [''reported_to'' \<mapsto> ex_file ex_log2]) =
           Ret (Some (text_of (n_data (ex_file ex_log2))), ex_world [''reported_to'' \<mapsto> ex_file ex_log2])"
    by (rule dd_load_text_ext_quiet)
       (simp_all add: quiet_def ex_world_def ex_dd_def str_is_correct_filename_def ex_file_def
          is_reg_def FILENAME_REPORTED_TO_def)
  have nd: "n_data (ex_file ex_log2) = ex_log2" by (simp add: ex_file_def)
  have f: "find_scan ex_log2 [CHR ''a'', CHR 0x0A, CHR ''b''] 3 0 None =
           (Some 3, [CHR ''a'', CHR 0x00, CHR ''b'', CHR '' '', CHR ''U'', CHR ''R'', CHR ''L'',
                     CHR ''='', CHR ''x'', CHR 0x00])"
    by (simp add: ex_log2_def find_scan.simps to_eol_def c_str_def strncmp_eq_def)
  have p: "parse_reported_line '' URL=x'' = \<lparr>url = Some ''x'', msg = None\<rparr>"
    by (simp add: parse_reported_line_def parse_reported_loop.simps skip_whitespace_def
        skip_non_whitespace_def strncmp_eq_def c_str_def isspace_def byte_def)
  have tl: "text_lines ex_log2 = [''a'', ''b URL=x'']"
    by (simp add: ex_log2_def text_lines.simps)
  show ?thesis
    by (simp add: find_in_reported_to_def l nd t c_str_def f p tl last_with_prefix_def)
qed

section \<open>Adding a line to the log of reports\<close>

lemma add_scan_result:
  "CHR 0x0A \<notin> set line \<Longrightarrow> CHR 0x00 \<notin> set line \<Longrightarrow> CHR 0x00 \<notin> set tx \<Longrightarrow>
   p \<le> length tx \<Longrightarrow> n = length line \<Longrightarrow>
   add_scan tx line n p =
     (if line \<in> set (text_lines (drop p tx)) then None else Some (length tx))"
proof (induction tx line n p rule: add_scan.induct)
  case (1 tx line n p)
  note nlen = "1.prems"(5)
  note nl = "1.prems"(1) and nulline = "1.prems"(2) and nultext = "1.prems"(3) and ple = "1.prems"(4)
  let ?d = "drop p tx"
  let ?cur = "takeWhile (\<lambda>c. c \<noteq> CHR 0x0A) ?d"
  let ?e = "length ?cur"
  let ?len = "length line"
  show ?case
  proof (cases "p = length tx")
    case True
    then show ?thesis by (subst add_scan.simps) simp
  next
    case False
    then have plt: "p < length tx" using ple by simp
    then have dne: "?d \<noteq> []" by simp
    have nd: "CHR 0x00 \<notin> set ?d" using nultext by (auto dest: in_set_dropD)
    have eol: "to_eol ?d = ?e" using nd by (rule to_eol_no_nul)
    have ele: "?e \<le> length ?d" by (rule length_takeWhile_le)
    have lines: "text_lines ?d = ?cur # text_lines (drop 1 (dropWhile (\<lambda>c. c \<noteq> CHR 0x0A) ?d))"
      using dne by (rule text_lines_nonempty)
    have dw: "dropWhile (\<lambda>c. c \<noteq> CHR 0x0A) ?d = drop (p + ?e) tx"
      by (simp add: dropWhile_eq_drop add.commute)
    have cur: "?cur = take ?e ?d" by (rule takeWhile_eq_take)
    have m: "(strncmp_eq ?d line ?len \<and>
              (length tx \<le> p + ?len \<or> tx ! (p + ?len) = CHR 0x0A)) = (?cur = line)"
    proof
      assume h: "strncmp_eq ?d line ?len \<and> (length tx \<le> p + ?len \<or> tx ! (p + ?len) = CHR 0x0A)"
      then have t: "take ?len ?d = line" using strncmp_eq_no_nul [OF nd nulline] by simp
      then have tc: "take ?len ?cur = line" using take_prefix_line [OF nl, of ?d] by simp
      then have "length (take ?len ?cur) = ?len" by simp
      then have le: "?len \<le> ?e" by (simp add: min_def split: if_splits)
      have "\<not> ?len < ?e"
      proof
        assume lt: "?len < ?e"
        then have "?cur ! ?len \<in> set ?cur" by simp
        then have ne: "?cur ! ?len \<noteq> CHR 0x0A" by (auto dest: set_takeWhileD)
        have "?cur ! ?len = ?d ! ?len" using lt by (simp add: takeWhile_nth)
        also have "\<dots> = tx ! (p + ?len)" using lt ele by simp
        finally have "tx ! (p + ?len) \<noteq> CHR 0x0A" using ne by simp
        moreover have "p + ?len < length tx" using lt ele by simp
        ultimately show False using h by simp
      qed
      with le have "?len = ?e" by simp
      with tc show "?cur = line" by simp
    next
      assume c: "?cur = line"
      then have e: "?e = ?len" by simp
      have "take ?len ?d = line" using cur c e by simp
      then have s: "strncmp_eq ?d line ?len" using strncmp_eq_no_nul [OF nd nulline] by simp
      have "length tx \<le> p + ?len \<or> tx ! (p + ?len) = CHR 0x0A"
      proof (cases "p + ?len < length tx")
        case True
        then have "dropWhile (\<lambda>c. c \<noteq> CHR 0x0A) ?d \<noteq> []" using e by (simp add: dw)
        then have "hd (dropWhile (\<lambda>c. c \<noteq> CHR 0x0A) ?d) = CHR 0x0A"
          using hd_dropWhile [of "\<lambda>c. c \<noteq> CHR 0x0A" ?d] by simp
        then show ?thesis using True e by (simp add: dw hd_drop_conv_nth)
      next
        case False
        then show ?thesis by simp
      qed
      with s show "strncmp_eq ?d line ?len \<and> (length tx \<le> p + ?len \<or> tx ! (p + ?len) = CHR 0x0A)"
        by simp
    qed
    show ?thesis
    proof (cases "?cur = line")
      case True
      then show ?thesis
        using plt m by (subst add_scan.simps) (simp add: lines nlen)
    next
      case nm: False
      show ?thesis
      proof (cases "length tx \<le> p + ?e")
        case True
        then have "text_lines (drop 1 (dropWhile (\<lambda>c. c \<noteq> CHR 0x0A) ?d)) = []"
          by (simp add: dw)
        moreover have "p + ?e = length tx" using True ele plt by simp
        ultimately show ?thesis
          using plt m nm True by (subst add_scan.simps) (auto simp: lines eol nlen)
      next
        case False
        have c1: "\<not> length tx \<le> p" using plt by simp
        have c2: "\<not> (strncmp_eq ?d line ?len \<and>
                      (length tx \<le> p + ?len \<or> tx ! (p + ?len) = CHR 0x0A))"
          using m nm by simp
        have c3: "\<not> length tx \<le> p + ?e" using False .
        have ple': "p + ?e + 1 \<le> length tx" using False by simp
        note ih = "1.IH" [unfolded eol nlen, OF c1 c2 c3 nl nulline nultext ple' refl]
        have d1: "drop (p + ?e + 1) tx = drop 1 (dropWhile (\<lambda>c. c \<noteq> CHR 0x0A) ?d)"
          by (simp add: dw)
        have step: "add_scan tx line n p = add_scan tx line (length line) (p + ?e + 1)"
          using c1 c2 c3 by (subst add_scan.simps) (auto simp: eol nlen)
        show ?thesis
          unfolding step ih d1 lines using nm by auto
      qed
    qed
  qed
qed


lemma may_save_errno [simp]: "may_save dd name (w\<lparr>w_errno := e\<rparr>) = may_save dd name w"
  by (simp add: may_save_def quiet_def)

lemma saved_node_errno [simp]: "saved_node dd (w\<lparr>w_errno := e\<rparr>) bytes = saved_node dd w bytes"
  by (simp add: saved_node_def)

lemma reported_to_valid:
  "str_is_correct_filename FILENAME_REPORTED_TO" "FILENAME_REPORTED_TO \<noteq> ''release''"
  by (simp_all add: FILENAME_REPORTED_TO_def str_is_correct_filename_def)

lemma add_reported_to_quiet:
  assumes "may_save dd FILENAME_REPORTED_TO w" "locked dd"
    and "\<forall>n. w_ents w FILENAME_REPORTED_TO = Some n \<longrightarrow> is_reg (n_stat n)"
    and "CHR 0x0A \<notin> set line" "CHR 0x00 \<notin> set line"
    and "length line < 2 ^ 32"
    and "\<forall>new. spec_add_reported_to (loaded_log w) line = Some new \<longrightarrow> length new < 2 ^ 32"
  shows "add_reported_to dd line w =
     (case spec_add_reported_to (loaded_log w) line of
        None \<Rightarrow> Ret w
      | Some new \<Rightarrow>
          Ret (w\<lparr>w_ents := (w_ents w)(FILENAME_REPORTED_TO \<mapsto> saved_node dd w new),
                 w_errno := (if w_ents w FILENAME_REPORTED_TO = None then ENOENT else w_errno w)\<rparr>))"
proof -
  have q: "quiet w" and d: "map_of (w_fds w) (dd_fd dd) = Some FDir" and io: "\<not> w_eio w"
    using assms(1) by (simp_all add: may_save_def)
  have cl: "c_str line = line" using assms(5) by (rule c_str_no_nul)
  show ?thesis
  proof (cases "w_ents w FILENAME_REPORTED_TO")
    case None
    have l: "dd_load_text_ext dd FILENAME_REPORTED_TO
               {DD_FAIL_QUIETLY_ENOENT, DD_LOAD_TEXT_RETURN_NULL_ON_FAILURE} w =
             Ret (None, w\<lparr>w_errno := ENOENT\<rparr>)"
      using q d reported_to_valid None by (simp add: dd_load_text_ext_absent)
    have c: "c_str (line @ [CHR 0x0A]) = line @ [CHR 0x0A]"
      using assms(5) by (intro c_str_no_nul) simp
    have s: "dd_save_text dd FILENAME_REPORTED_TO (line @ [CHR 0x0A]) (w\<lparr>w_errno := ENOENT\<rparr>) =
             Ret (w\<lparr>w_errno := ENOENT,
                    w_ents := (w_ents w)(FILENAME_REPORTED_TO \<mapsto> saved_node dd w (line @ [CHR 0x0A])),
                    w_errno := ENOENT\<rparr>)"
      using assms(1,2,7) reported_to_valid(1) None
      by (subst dd_save_text_quiet)
        (simp_all add: c loaded_log_def log_bytes_def spec_add_reported_to_def)
    show ?thesis
      using None assms(2) by (simp add: add_reported_to_def l cl s spec_add_reported_to_def
          loaded_log_def log_bytes_def)
  next
    case (Some n)
    let ?t = "text_of (n_data n)"
    have reg: "is_reg (n_stat n)" using assms(3) Some by simp
    have l: "dd_load_text_ext dd FILENAME_REPORTED_TO
               {DD_FAIL_QUIETLY_ENOENT, DD_LOAD_TEXT_RETURN_NULL_ON_FAILURE} w =
             Ret (Some ?t, w)"
      using q d io reported_to_valid Some reg by (intro dd_load_text_ext_quiet) simp_all
    have ln: "length line mod 2 ^ 32 = length line"
      using assms(6) by simp
    have sc: "add_scan ?t line (length line) 0 =
              (if line \<in> set (text_lines ?t) then None else Some (length ?t))"
      using add_scan_result [OF assms(4,5) text_of_no_nul, of 0 "n_data n"] by simp
    have ll: "loaded_log w = Some ?t" using Some by (simp add: loaded_log_def log_bytes_def)
    show ?thesis
    proof (cases "line \<in> set (text_lines ?t)")
      case True
      have a: "add_reported_to dd line w = Ret w"
        using True assms(2) unfolding add_reported_to_def l
        by (simp only: cl ln sc Let_def if_False if_True res.case prod.case option.case simp_thms)
      have sp: "spec_add_reported_to (loaded_log w) line = None"
        using True by (simp add: spec_add_reported_to_def ll)
      show ?thesis unfolding a sp by simp
    next
      case False
      define x where "x = (if ?t \<noteq> [] \<and> last ?t \<noteq> CHR 0x0A then ?t @ [CHR 0x0A] else ?t)"
      have px: "(if length ?t \<noteq> 0 \<and> ?t ! (length ?t - 1) \<noteq> CHR 0x0A
                 then ?t @ [CHR 0x0A] else ?t) = x"
        unfolding x_def by (cases "?t = []") (simp_all add: last_conv_nth)
      have nn: "CHR 0x00 \<notin> set (x @ line @ [CHR 0x0A])"
        using assms(5) text_of_no_nul [of "n_data n"] by (auto simp: x_def)
      have c: "c_str (x @ line @ [CHR 0x0A]) = x @ line @ [CHR 0x0A]"
        using nn by (rule c_str_no_nul)
      have sp: "spec_add_reported_to (loaded_log w) line = Some (x @ line @ [CHR 0x0A])"
        using False by (simp add: spec_add_reported_to_def ll x_def)
      have len: "length (c_str (x @ line @ [CHR 0x0A])) < 2 ^ 32"
        unfolding c using assms(7) sp by blast
      have s: "dd_save_text dd FILENAME_REPORTED_TO (x @ line @ [CHR 0x0A]) w =
               Ret (w\<lparr>w_ents := (w_ents w)(FILENAME_REPORTED_TO \<mapsto> saved_node dd w (x @ line @ [CHR 0x0A])),
                      w_errno := (if w_ents w FILENAME_REPORTED_TO = None then ENOENT else w_errno w)\<rparr>)"
        using dd_save_text_quiet [OF assms(1,2) reported_to_valid(1) len] unfolding c .
      have a: "add_reported_to dd line w = dd_save_text dd FILENAME_REPORTED_TO (x @ line @ [CHR 0x0A]) w"
        using False assms(2) unfolding add_reported_to_def l
        by (simp only: cl ln sc px Let_def if_False if_True res.case prod.case option.case simp_thms)
      show ?thesis unfolding a sp s by simp
    qed
  qed
qed

lemma text_lines_line_nl:
  "CHR 0x0A \<notin> set line \<Longrightarrow> text_lines (line @ [CHR 0x0A]) = [line]"
proof -
  assume n: "CHR 0x0A \<notin> set line"
  then have "takeWhile (\<lambda>c. c \<noteq> CHR 0x0A) (line @ [CHR 0x0A]) = line"
    and "dropWhile (\<lambda>c. c \<noteq> CHR 0x0A) (line @ [CHR 0x0A]) = [CHR 0x0A]"
    by (induction line) auto
  then show ?thesis by (subst text_lines.simps) simp
qed

lemma text_lines_no_nl:
  "CHR 0x0A \<notin> set s \<Longrightarrow> s \<noteq> [] \<Longrightarrow> text_lines s = [s]"
proof -
  assume n: "CHR 0x0A \<notin> set s" and ne: "s \<noteq> []"
  from n have tw: "takeWhile (\<lambda>c. c \<noteq> CHR 0x0A) s = s"
    and dw: "dropWhile (\<lambda>c. c \<noteq> CHR 0x0A) s = []"
    by (induction s) auto
  show ?thesis
    by (subst text_lines.simps) (simp only: tw dw ne if_False drop_Nil text_lines_Nil)
qed

lemma split_at_nl:
  assumes "CHR 0x0A \<in> set s"
  shows "s = takeWhile (\<lambda>c. c \<noteq> CHR 0x0A) s @ CHR 0x0A # drop 1 (dropWhile (\<lambda>c. c \<noteq> CHR 0x0A) s)"
  using assms by (induction s) auto

lemma text_lines_step:
  assumes "s = t @ CHR 0x0A # r" "CHR 0x0A \<notin> set t"
  shows "text_lines s = t # text_lines r"
proof -
  have "takeWhile (\<lambda>c. c \<noteq> CHR 0x0A) (t @ CHR 0x0A # r) = t"
    and "dropWhile (\<lambda>c. c \<noteq> CHR 0x0A) (t @ CHR 0x0A # r) = CHR 0x0A # r"
    using assms(2) by (induction t) auto
  then show ?thesis unfolding assms(1) by (subst text_lines.simps) simp
qed

lemma text_lines_append:
  "x = [] \<or> last x = CHR 0x0A \<Longrightarrow> text_lines (x @ y) = text_lines x @ text_lines y"
proof (induction x rule: text_lines.induct)
  case (1 s)
  show ?case
  proof (cases "s = []")
    case True
    then show ?thesis by simp
  next
    case False
    define t where "t = takeWhile (\<lambda>c. c \<noteq> CHR 0x0A) s"
    define r where "r = drop 1 (dropWhile (\<lambda>c. c \<noteq> CHR 0x0A) s)"
    have lst: "last s = CHR 0x0A" using "1.prems" False by simp
    then have mem: "CHR 0x0A \<in> set s" using False last_in_set by metis
    have s: "s = t @ CHR 0x0A # r" unfolding t_def r_def using mem by (rule split_at_nl)
    have tn: "CHR 0x0A \<notin> set t" unfolding t_def by (auto dest: set_takeWhileD)
    have "last (t @ CHR 0x0A # r) = CHR 0x0A" using lst unfolding s [symmetric] .
    then have r: "r = [] \<or> last r = CHR 0x0A" by (cases "r = []") simp_all
    have sy: "s @ y = t @ CHR 0x0A # (r @ y)" by (subst s) simp
    have "text_lines (s @ y) = t # text_lines (r @ y)" using sy tn by (rule text_lines_step)
    also have "text_lines (r @ y) = text_lines r @ text_lines y"
      using "1.IH" [OF False, folded r_def, OF r] .
    finally show ?thesis using text_lines_step [OF s tn] by simp
  qed
qed

lemma text_lines_add_nl:
  "s \<noteq> [] \<Longrightarrow> last s \<noteq> CHR 0x0A \<Longrightarrow> text_lines (s @ [CHR 0x0A]) = text_lines s"
proof (induction s rule: text_lines.induct)
  case (1 s)
  note ne = "1.prems"(1) and lst = "1.prems"(2)
  show ?case
  proof (cases "CHR 0x0A \<in> set s")
    case False
    then show ?thesis using ne by (simp add: text_lines_no_nl text_lines_line_nl)
  next
    case mem: True
    define t where "t = takeWhile (\<lambda>c. c \<noteq> CHR 0x0A) s"
    define r where "r = drop 1 (dropWhile (\<lambda>c. c \<noteq> CHR 0x0A) s)"
    have s: "s = t @ CHR 0x0A # r" unfolding t_def r_def using mem by (rule split_at_nl)
    have tn: "CHR 0x0A \<notin> set t" unfolding t_def by (auto dest: set_takeWhileD)
    have l: "last (t @ CHR 0x0A # r) \<noteq> CHR 0x0A" using lst unfolding s [symmetric] .
    then have rne: "r \<noteq> []" by auto
    then have rl: "last r \<noteq> CHR 0x0A" using l by simp
    have sy: "s @ [CHR 0x0A] = t @ CHR 0x0A # (r @ [CHR 0x0A])" by (subst s) simp
    have "text_lines (s @ [CHR 0x0A]) = t # text_lines (r @ [CHR 0x0A])"
      using sy tn by (rule text_lines_step)
    also have "text_lines (r @ [CHR 0x0A]) = text_lines r"
      using "1.IH" [OF ne, folded r_def, OF rne rl] .
    finally show ?thesis using text_lines_step [OF s tn] by simp
  qed
qed

lemma kept_nl: "kept (CHR 0x0A)"
  by (simp add: kept_def isspace_def byte_def)

lemma text_of_all_kept: "list_all kept (text_of bytes)"
proof -
  have s: "list_all kept (sanitize bytes)" by (simp add: sanitize_def list_all_iff)
  then have "list_all kept (butlast (sanitize bytes))"
    by (auto simp: list_all_iff dest: in_set_butlastD)
  with s show ?thesis by (simp add: text_of_eq kept_nl)
qed


lemma spec_add_shape:
  assumes "spec_add_reported_to lo line = Some new" "CHR 0x0A \<notin> set line"
  shows "\<exists>x. new = x @ line @ [CHR 0x0A] \<and> (x = [] \<or> last x = CHR 0x0A) \<and>
             line \<notin> set (text_lines x) \<and>
             length x \<le> length (case lo of None \<Rightarrow> [] | Some t \<Rightarrow> t) + 1 \<and>
             ((case lo of None \<Rightarrow> True | Some t \<Rightarrow> list_all kept t) \<longrightarrow> list_all kept x)"
proof (cases lo)
  case None
  then show ?thesis using assms by (simp add: spec_add_reported_to_def)
next
  case (Some t)
  define x where "x = (if t \<noteq> [] \<and> last t \<noteq> CHR 0x0A then t @ [CHR 0x0A] else t)"
  have n: "line \<notin> set (text_lines t)" and new: "new = x @ line @ [CHR 0x0A]"
    using assms(1) Some by (auto simp: spec_add_reported_to_def x_def split: if_splits)
  have "text_lines x = text_lines t" by (simp add: x_def text_lines_add_nl)
  moreover have "x = [] \<or> last x = CHR 0x0A" by (simp add: x_def)
  moreover have "length x \<le> length t + 1" by (simp add: x_def)
  moreover have "list_all kept t \<longrightarrow> list_all kept x" by (simp add: x_def kept_nl)
  ultimately show ?thesis using n new Some by auto
qed

lemma spec_add_again:
  assumes "new = x @ line @ [CHR 0x0A]" "x = [] \<or> last x = CHR 0x0A"
    and "list_all kept x" "list_all kept line" "CHR 0x0A \<notin> set line"
  shows "spec_add_reported_to (Some (text_of new)) line = None \<or>
         spec_add_reported_to (Some (text_of new)) line = Some new"
proof -
  have k: "list_all kept new" using assms(1,3,4) by (simp add: kept_nl)
  have nn: "newlines new = newlines x + 1"
    using assms(1,5) by (auto simp: newlines_def filter_empty_conv)
  have t: "text_of new = (if newlines new = 1 then butlast new else new)"
  proof -
    have ln: "last new = CHR 0x0A" by (simp add: assms(1))
    show ?thesis unfolding text_of_eq sanitize_kept [OF k] using nn ln by simp
  qed
  have l: "text_lines new = text_lines x @ [line]"
    unfolding assms(1) using assms(2,5) by (simp add: text_lines_append text_lines_line_nl)
  show ?thesis
  proof (cases "newlines new = 1")
    case False
    then show ?thesis using t l by (simp add: spec_add_reported_to_def)
  next
    case True
    then have "newlines x = 0" using nn by simp
    then have "CHR 0x0A \<notin> set x" by (auto simp: newlines_def filter_empty_conv)
    then have "x = []" using assms(2) last_in_set by metis
    then have tn: "text_of new = line" and new: "new = line @ [CHR 0x0A]"
      using t True assms(1) by (simp_all add: butlast_append)
    show ?thesis
    proof (cases "line = []")
      case True
      then show ?thesis using tn new by (simp add: spec_add_reported_to_def)
    next
      case False
      then show ?thesis
        using tn assms(5) by (simp add: spec_add_reported_to_def text_lines_no_nl)
    qed
  qed
qed

text \<open>
  Claim C5, amended. In a quiet world in which a save goes through, for a locked handle and
  a line that holds no newline and only bytes the text loader keeps (the loaded text and
  the line together staying below \<open>2 ^ 32\<close> bytes, the lengths being unsigned): when a line of the
  text the loader returns for \<open>reported_to\<close> is byte-equal to the new line, the call
  changes nothing at all; otherwise (also when the file is absent) the file is rewritten
  with the loaded text, a newline added to it if it is not empty and does not end in one,
  the new line, and a newline, and the new line then occurs exactly once among the lines
  of the file. A second call with the same line leaves the world as the first call left
  it.
\<close>

theorem add_reported_to_idempotent:
  assumes "may_save dd FILENAME_REPORTED_TO w" "locked dd"
    and "\<forall>n. w_ents w FILENAME_REPORTED_TO = Some n \<longrightarrow> is_reg (n_stat n)"
    and "list_all kept line" "CHR 0x0A \<notin> set line"
    and "length (case loaded_log w of None \<Rightarrow> [] | Some t \<Rightarrow> t) + length line + 2 < 2 ^ 32"
  shows "\<exists>w1. add_reported_to dd line w = Ret w1 \<and> add_reported_to dd line w1 = Ret w1 \<and>
           (case spec_add_reported_to (loaded_log w) line of
              None \<Rightarrow> w1 = w
            | Some new \<Rightarrow> log_bytes w1 = Some new \<and> count_list (text_lines new) line = 1)"
proof -
  have nul: "CHR 0x00 \<notin> set line" using assms(4) by (rule kept_no_nul)
  have ll: "length line < 2 ^ 32" using assms(6) by simp
  have lk: "case loaded_log w of None \<Rightarrow> True | Some t \<Rightarrow> list_all kept t"
    by (auto simp: loaded_log_def log_bytes_def text_of_all_kept split: option.splits)
  have bound: "\<forall>new. spec_add_reported_to (loaded_log w) line = Some new \<longrightarrow> length new < 2 ^ 32"
  proof (intro allI impI)
    fix new assume "spec_add_reported_to (loaded_log w) line = Some new"
    from spec_add_shape [OF this assms(5)] show "length new < 2 ^ 32"
      using assms(6) by auto
  qed
  note first = add_reported_to_quiet [OF assms(1,2,3,5) nul ll bound]
  show ?thesis
  proof (cases "spec_add_reported_to (loaded_log w) line")
    case None
    then show ?thesis using first by simp
  next
    case (Some new)
    define w1 where "w1 = w\<lparr>w_ents := (w_ents w)(FILENAME_REPORTED_TO \<mapsto> saved_node dd w new),
                 w_errno := (if w_ents w FILENAME_REPORTED_TO = None then ENOENT else w_errno w)\<rparr>"
    have f: "add_reported_to dd line w = Ret w1" using first Some by (simp add: w1_def)
    obtain x where new: "new = x @ line @ [CHR 0x0A]" and x: "x = [] \<or> last x = CHR 0x0A"
      and nx: "line \<notin> set (text_lines x)" and xk: "list_all kept x"
      using spec_add_shape [OF Some assms(5)] lk by auto
    have ms: "may_save dd FILENAME_REPORTED_TO w1"
      using assms(1) by (simp add: may_save_def quiet_def w1_def saved_node_def is_dir_def)
    have reg: "\<forall>n. w_ents w1 FILENAME_REPORTED_TO = Some n \<longrightarrow> is_reg (n_stat n)"
      by (simp add: w1_def saved_node_def is_reg_def)
    have lw1: "loaded_log w1 = Some (text_of new)"
      by (simp add: loaded_log_def log_bytes_def w1_def saved_node_def)
    note again = spec_add_again [OF new x xk assms(4,5)]
    have b2: "\<forall>new'. spec_add_reported_to (loaded_log w1) line = Some new' \<longrightarrow> length new' < 2 ^ 32"
      using again bound Some unfolding lw1 by auto
    have same: "w1\<lparr>w_ents := (w_ents w1)(FILENAME_REPORTED_TO \<mapsto> saved_node dd w1 new),
                 w_errno := (if w_ents w1 FILENAME_REPORTED_TO = None then ENOENT else w_errno w1)\<rparr> = w1"
      by (simp add: w1_def saved_node_def)
    have s: "add_reported_to dd line w1 = Ret w1"
      using add_reported_to_quiet [OF ms assms(2) reg assms(5) nul ll b2] again same
      unfolding lw1 by auto
    have c: "count_list (text_lines new) line = 1"
      unfolding new using x nx assms(5) by (simp add: text_lines_append text_lines_line_nl)
    have lb: "log_bytes w1 = Some new" by (simp add: log_bytes_def w1_def saved_node_def)
    show ?thesis using f s c lb Some by simp
  qed
qed


theorem add_reported_to_idempotent_witness:
  "may_save ex_dd FILENAME_REPORTED_TO (ex_world Map.empty) \<and> locked ex_dd \<and>
   list_all kept ''Bugzilla: URL=http://x/1'' \<and>
   CHR 0x0A \<notin> set ''Bugzilla: URL=http://x/1'' \<and>
   add_reported_to ex_dd ''Bugzilla: URL=http://x/1'' (ex_world Map.empty) =
     Ret ((ex_world [FILENAME_REPORTED_TO \<mapsto> ex_file (''Bugzilla: URL=http://x/1'' @ [CHR 0x0A])])
            \<lparr>w_errno := ENOENT\<rparr>) \<and>
   add_reported_to ex_dd ''Bugzilla: URL=http://x/1''
       ((ex_world [FILENAME_REPORTED_TO \<mapsto> ex_file (''Bugzilla: URL=http://x/1'' @ [CHR 0x0A])])
            \<lparr>w_errno := ENOENT\<rparr>) =
     Ret ((ex_world [FILENAME_REPORTED_TO \<mapsto> ex_file (''Bugzilla: URL=http://x/1'' @ [CHR 0x0A])])
            \<lparr>w_errno := ENOENT\<rparr>)"
  using add_reported_to_idempotent [of ex_dd "ex_world Map.empty" "''Bugzilla: URL=http://x/1''"]
    add_reported_to_quiet [of ex_dd "ex_world Map.empty" "''Bugzilla: URL=http://x/1''"]
  by (simp add: may_save_def quiet_def ex_world_def ex_dd_def ex_file_def kept_def isspace_def
      byte_def ID_NONE_def loaded_log_def log_bytes_def spec_add_reported_to_def saved_node_def)

lemma ex_ctl_text: "text_of [CHR ''a'', CHR 0x01, CHR 0x0A] = ''a''"
  by (simp add: text_of_eq newlines_def sanitize_def nul_to_space_def kept_def isspace_def byte_def)

text \<open>
  Claim C5 as stated fails for a line that holds a control byte. The loader drops such
  bytes, so the line as saved is never found again in the loaded text: the file that
  holds the line \<open>a\<close>, \<open>0x01\<close> is not left unchanged when the same line is added again,
  it grows by one more copy.
\<close>

theorem add_reported_to_control_byte_counterexample:
  "locked ex_dd \<and>
   [CHR ''a'', CHR 0x01] \<in> set (text_lines [CHR ''a'', CHR 0x01, CHR 0x0A]) \<and>
   add_reported_to ex_dd [CHR ''a'', CHR 0x01]
       ((ex_world [FILENAME_REPORTED_TO \<mapsto> ex_file [CHR ''a'', CHR 0x01, CHR 0x0A]])) =
     Ret (ex_world [FILENAME_REPORTED_TO \<mapsto>
            ex_file [CHR ''a'', CHR 0x0A, CHR ''a'', CHR 0x01, CHR 0x0A]])"
  using add_reported_to_quiet [of ex_dd
      "ex_world [FILENAME_REPORTED_TO \<mapsto> ex_file [CHR ''a'', CHR 0x01, CHR 0x0A]]"
      "[CHR ''a'', CHR 0x01]"]
    text_lines_line_nl [of "[CHR ''a'', CHR 0x01]"] text_lines_no_nl [of "''a''"]
  by (simp add: may_save_def quiet_def ex_world_def ex_dd_def ex_file_def ID_NONE_def
      loaded_log_def log_bytes_def spec_add_reported_to_def saved_node_def is_reg_def is_dir_def
      ex_ctl_text)

section \<open>Locking a directory that has no time file\<close>

lemma slept_new_fd: "w_slept (snd (new_fd obj w)) = w_slept w"
  by (simp add: new_fd_def)

lemma slept_openat_rdonly: "w_slept (snd (openat_rdonly d n f w)) = w_slept w"
  by (simp add: openat_rdonly_def Let_def fails_def new_fd_def split: option.splits)

lemma slept_fstat: "w_slept (snd (fstat fd w)) = w_slept w"
  by (simp add: fstat_def Let_def split: option.splits fobj.splits)

lemma slept_close: "w_slept (snd (close fd w)) = w_slept w"
  by (simp add: close_def Let_def fails_def split: option.splits)

lemma slept_read: "w_slept (snd (read fd c w)) = w_slept w"
  by (simp add: read_def Let_def split: option.splits fobj.splits)

lemma slept_unlinkat: "w_slept (snd (unlinkat d n w)) = w_slept w"
  by (simp add: unlinkat_def Let_def fails_def split: option.splits)

lemma slept_symlinkat: "w_slept (snd (symlinkat t d l w)) = w_slept w"
  by (simp add: symlinkat_def Let_def fails_def)

lemma slept_readlinkat: "w_slept (snd (snd (readlinkat d n b w))) = w_slept w"
  by (simp add: readlinkat_def Let_def split: option.splits)

lemma slept_access_F_OK: "w_slept (snd (access_F_OK p w)) = w_slept w"
  by (simp add: access_F_OK_def Let_def fails_def)

lemma slept_secure_openat_read: "w_slept (snd (secure_openat_read d n w)) = w_slept w"
proof -
  obtain fd w1 where o: "openat_rdonly d n False w = (fd, w1)" by (cases "openat_rdonly d n False w")
  have w1: "w_slept w1 = w_slept w" using slept_openat_rdonly [of d n False w] o by simp
  obtain st w2 where f: "fstat fd w1 = (st, w2)" by (cases "fstat fd w1")
  have w2: "w_slept w2 = w_slept w" using slept_fstat [of fd w1] f w1 by simp
  show ?thesis
    using w1 w2 slept_close [of fd w2] slept_close [of fd "w2\<lparr>w_errno := EINVAL\<rparr>"]
    by (simp add: secure_openat_read_def o f split: option.splits)
qed

lemma slept_parse_time_file_at: "w_slept (snd (parse_time_file_at d n w)) = w_slept w"
proof -
  obtain fd w1 where o: "secure_openat_read d n w = (fd, w1)" by (cases "secure_openat_read d n w")
  have w1: "w_slept w1 = w_slept w" using slept_secure_openat_read [of d n w] o by simp
  obtain rd w2 where r: "read fd time_buf_size w1 = (rd, w2)" by (cases "read fd time_buf_size w1")
  have w2: "w_slept w2 = w_slept w" using slept_read [of fd time_buf_size w1] r w1 by simp
  obtain c w3 where c: "close fd w2 = (c, w3)" by (cases "close fd w2")
  have w3: "w_slept w3 = w_slept w" using slept_close [of fd w2] c w2 by simp
  show ?thesis
    using w1 w3 by (simp add: parse_time_file_at_def o r c split: option.splits prod.splits)
qed

lemma naps_dd_check: "dd_check dd w = (m, dd2, w2) \<Longrightarrow> naps w2 = naps w"
  using slept_parse_time_file_at [of "dd_fd dd" FILENAME_TIME w]
  by (auto simp: dd_check_def naps_def split: prod.splits if_splits)

lemma dd_check_locked: "dd_check dd w = (m, dd2, w2) \<Longrightarrow> locked dd2 = locked dd \<and> dd_fd dd2 = dd_fd dd"
  by (auto simp: dd_check_def split: prod.splits if_splits)

lemma naps_usleep: "naps (usleep u w) = naps w + (if u = NO_TIME_FILE_USLEEP then 1 else 0)"
  by (simp add: usleep_def Let_def naps_def)

lemma xunlinkat_Ret:
  "xunlinkat d n w = Ret w1 \<Longrightarrow> w_ents w1 n = None \<and> naps w1 = naps w"
  using slept_unlinkat [of d n w]
  by (auto simp: xunlinkat_def unlinkat_def Let_def fails_def naps_def
      split: prod.splits if_splits option.splits)


lemma create_symlink_lockfile_at_outcome:
  "create_symlink_lockfile_at n d lf pid w = Some (r, w') \<Longrightarrow>
   naps w' = naps w \<and> (r = -1 \<or> r = 0 \<or> r = 1) \<and> (r = -1 \<longrightarrow> w_errno w' \<noteq> EISDIR)"
proof (induction n arbitrary: w)
  case 0
  then show ?case by simp
next
  case (Suc n)
  obtain s w1 where sy: "symlinkat pid d lf w = (s, w1)" by (cases "symlinkat pid d lf w")
  have n1: "naps w1 = naps w" using slept_symlinkat [of pid d lf w] sy by (simp add: naps_def)
  obtain rl buf w2 where rd: "readlinkat d lf (16 - 1) w1 = (rl, buf, w2)"
    by (cases "readlinkat d lf (16 - 1) w1") auto
  have n2: "naps w2 = naps w" using slept_readlinkat [of d lf "16 - 1" w1] rd n1 by (simp add: naps_def)
  let ?t = "c_str (take (nat rl) buf)"
  obtain a w3 where ac: "(if isdigit_str ?t then access_F_OK (''/proc/'' @ ?t) w2 else (-1, w2)) = (a, w3)"
    by (cases "if isdigit_str ?t then access_F_OK (''/proc/'' @ ?t) w2 else (-1, w2)")
  have n3: "naps w3 = naps w"
    using slept_access_F_OK [of "''/proc/'' @ ?t" w2] ac n2 by (auto simp: naps_def split: if_splits)
  obtain u w4 where un: "unlinkat d lf w3 = (u, w4)" by (cases "unlinkat d lf w3")
  have n4: "naps w4 = naps w" using slept_unlinkat [of d lf w3] un n3 by (simp add: naps_def)
  have nu: "naps (usleep SYMLINK_RETRY_USLEEP w2) = naps w"
    using n2 by (simp add: naps_usleep SYMLINK_RETRY_USLEEP_def NO_TIME_FILE_USLEEP_def)
  note ih1 = Suc.IH [of "usleep SYMLINK_RETRY_USLEEP w2"]
  note ih2 = Suc.IH [of w4]
  have e: "create_symlink_lockfile_at (Suc n) d lf pid w =
        (if s = 0 then Some (1, w1)
        else if w_errno w1 \<noteq> EEXIST then
          (if w_errno w1 \<noteq> ENOENT \<and> w_errno w1 \<noteq> ENOTDIR \<and> w_errno w1 \<noteq> EACCES
           then Some (-1, w1\<lparr>w_errno := E0\<rparr>)
           else Some (-1, w1))
        else if rl < 0 then
            (if w_errno w2 = ENOENT
             then create_symlink_lockfile_at n d lf pid (usleep SYMLINK_RETRY_USLEEP w2)
             else Some (-1, w2\<lparr>w_errno := E0\<rparr>))
          else if ?t = c_str pid then Some (0, w2)
          else if isdigit_str ?t \<and> a = 0 then Some (0, w3)
            else if u \<noteq> 0 \<and> w_errno w4 \<noteq> ENOENT then Some (-1, w4\<lparr>w_errno := E0\<rparr>)
              else create_symlink_lockfile_at n d lf pid w4)"
    by (simp only: create_symlink_lockfile_at.simps sy rd ac un prod.case)
  show ?case
    using Suc.prems ih1 ih2 n1 n2 n3 n4 nu unfolding e
    by (auto simp: naps_def split: if_splits)
qed

lemma dd_lock_wait_outcome:
  "dd_lock_wait n dd sleep_usec pid w = Some (r, w') \<Longrightarrow> sleep_usec \<noteq> NO_TIME_FILE_USLEEP \<Longrightarrow>
   naps w' = naps w \<and> (r = -1 \<or> r = 1) \<and> (r = -1 \<longrightarrow> w_errno w' \<noteq> EISDIR)"
proof (induction n arbitrary: w)
  case 0
  then show ?case by simp
next
  case (Suc n)
  from Suc.prems(1) obtain r1 w1 where
    c: "create_symlink_lockfile_at (Suc n) (dd_fd dd) ''.lock'' pid w = Some (r1, w1)"
    by (auto split: option.splits)
  note o = create_symlink_lockfile_at_outcome [OF c]
  have nu: "naps (usleep sleep_usec w1) = naps w" using o Suc.prems(2) by (simp add: naps_usleep)
  have e: "dd_lock_wait (Suc n) dd sleep_usec pid w =
        (if r1 < 0 then Some (r1, w1) else if r1 > 0 then Some (r1, w1)
         else dd_lock_wait n dd sleep_usec pid (usleep sleep_usec w1))"
    by (simp only: dd_lock_wait.simps c option.case prod.case)
  show ?case
    using Suc.prems Suc.IH [of "usleep sleep_usec w1"] o nu unfolding e
    by (auto split: if_splits)
qed


lemma dd_lock_retry_outcome:
  assumes "dd_lock_retry fuel count dd WAIT_FOR_OTHER_PROCESS_USLEEP flags pid w = Some (Ret (r, dd', w'))"
    and "\<not> locked dd" "count \<noteq> 0"
  shows "(r = -1 \<or> r = 0) \<and> locked dd' = (r = 0) \<and>
         (if r = -1 \<and> w_errno w' = EISDIR
          then w_ents w' ''.lock'' = None \<and>
               (if DD_DONT_WAIT_FOR_LOCK \<in> flags then naps w' = naps w
                else naps w' + 1 = naps w + unat count)
          else (if DD_DONT_WAIT_FOR_LOCK \<in> flags then naps w' = naps w
                else naps w' < naps w + unat count))"
  using assms
proof (induction fuel arbitrary: count dd w)
  case 0
  then show ?case by simp
next
  case (Suc n)
  let ?W = WAIT_FOR_OTHER_PROCESS_USLEEP
  have ne: "?W \<noteq> NO_TIME_FILE_USLEEP"
    by (simp add: WAIT_FOR_OTHER_PROCESS_USLEEP_def NO_TIME_FILE_USLEEP_def)
  have cpos: "0 < unat count" using Suc.prems(3) by (simp add: unat_gt_0)
  from Suc.prems(1) obtain r1 w1 where
    wt: "dd_lock_wait (Suc n) dd ?W pid w = Some (r1, w1)"
    by (auto split: option.splits)
  note o = dd_lock_wait_outcome [OF wt ne]
  obtain m dd2 w2 where ck: "dd_check dd w1 = (m, dd2, w2)" by (cases "dd_check dd w1") auto
  have n2: "naps w2 = naps w" using naps_dd_check [OF ck] o by simp
  have l2: "\<not> locked dd2" and fd2: "dd_fd dd2 = dd_fd dd"
    using dd_check_locked [OF ck] Suc.prems(2) by simp_all
  show ?case
  proof (cases "r1 < 0")
    case True
    then have "dd_lock_retry (Suc n) count dd ?W flags pid w = Some (Ret (r1, dd, w1))"
      by (simp only: dd_lock_retry.simps wt option.case prod.case if_True)
    then show ?thesis using Suc.prems o True cpos by auto
  next
    case False
    then have r1: "r1 = 1" using o by auto
    show ?thesis
    proof (cases m)
      case None
      have "dd_lock_retry (Suc n) count dd ?W flags pid w = Some (Ret (0, dd2\<lparr>locked := True\<rparr>, w2))"
        using False by (simp only: dd_lock_retry.simps wt ck None option.case prod.case if_False if_True simp_thms)
      then show ?thesis using Suc.prems n2 cpos by auto
    next
      case (Some mf)
      have e: "dd_lock_retry (Suc n) count dd ?W flags pid w =
               (case xunlinkat (dd_fd dd2) ''.lock'' w2 of
                    Die \<Rightarrow> Some Die
                  | Ret w3 \<Rightarrow>
                      if count - 1 = 0 \<or> DD_DONT_WAIT_FOR_LOCK \<in> flags
                      then Some (Ret (-1, dd2, w3\<lparr>w_errno := EISDIR\<rparr>))
                      else dd_lock_retry n (count - 1) dd2 ?W flags pid
                             (usleep NO_TIME_FILE_USLEEP w3))"
        using False by (simp only: dd_lock_retry.simps wt ck Some option.case prod.case if_False if_True simp_thms)
      from Suc.prems(1) obtain w3 where x: "xunlinkat (dd_fd dd2) ''.lock'' w2 = Ret w3"
        unfolding e by (cases "xunlinkat (dd_fd dd2) ''.lock'' w2") auto
      have n3: "naps w3 = naps w" and gone: "w_ents w3 ''.lock'' = None"
        using xunlinkat_Ret [OF x] n2 by simp_all
      show ?thesis
      proof (cases "count - 1 = 0 \<or> DD_DONT_WAIT_FOR_LOCK \<in> flags")
        case True
        then have res: "dd_lock_retry (Suc n) count dd ?W flags pid w =
                   Some (Ret (-1, dd2, w3\<lparr>w_errno := EISDIR\<rparr>))"
          unfolding e x by simp
        have "DD_DONT_WAIT_FOR_LOCK \<notin> flags \<Longrightarrow> unat count = 1"
        proof -
          assume "DD_DONT_WAIT_FOR_LOCK \<notin> flags"
          then have "count - 1 = 0" using True by simp
          then have "count = 1" by simp
          then show ?thesis by simp
        qed
        then show ?thesis using Suc.prems(1) res l2 n3 gone by (auto simp: naps_def)
      next
        case nf: False
        then have c1: "count - 1 \<noteq> 0" and fl: "DD_DONT_WAIT_FOR_LOCK \<notin> flags" by simp_all
        have rec: "dd_lock_retry n (count - 1) dd2 ?W flags pid (usleep NO_TIME_FILE_USLEEP w3) =
                   Some (Ret (r, dd', w'))"
          using Suc.prems(1) nf unfolding e x by simp
        have u: "unat (count - 1) = unat count - 1" using Suc.prems(3) by (rule unat_minus_one)
        have nu: "naps (usleep NO_TIME_FILE_USLEEP w3) = naps w + 1" using n3 by (simp add: naps_usleep)
        have c2: "2 \<le> unat count"
        proof -
          have "unat (count - 1) \<noteq> 0" using c1 by (simp add: unat_eq_0)
          then show ?thesis using u by simp
        qed
        show ?thesis
          using Suc.IH [OF rec l2 c1] fl c2 unfolding u nu by (auto split: if_splits)
      qed
    qed
  qed
qed

lemma parse_time_buf_ok_errno: "parse_time_buf b = (t, e) \<Longrightarrow> 0 \<le> t \<Longrightarrow> e = E0"
  by (auto simp: parse_time_buf_def Let_def split: prod.splits if_splits)

lemma parse_time_file_at_quiet_eq:
  assumes "quiet w" "at_err w d = E0"
  shows "parse_time_file_at d name w =
     (case w_ents w name of
        None \<Rightarrow> (-1, w\<lparr>w_errno := ENOENT\<rparr>)
      | Some n \<Rightarrow>
          if st_fmt (n_stat n) = S_IFLNK then (-1, w\<lparr>w_errno := ELOOP\<rparr>)
          else if \<not> is_reg (n_stat n) \<or> 1 < st_nlink (n_stat n) then (-1, w\<lparr>w_errno := EINVAL\<rparr>)
          else if w_eio w then (-1, w\<lparr>w_errno := EIO\<rparr>)
          else if length (take time_buf_size (n_data n)) = time_buf_size then (-1, w)
          else (case parse_time_buf (take time_buf_size (n_data n)) of (t, e) \<Rightarrow> (t, w\<lparr>w_errno := e\<rparr>)))"
proof (cases "w_ents w name")
  case None
  then show ?thesis
    using assms
    by (simp add: parse_time_file_at_def secure_openat_read_def openat_rdonly_def env_step_quiet
        fails_def)
next
  case (Some n)
  let ?f = "fresh_fd w"
  let ?w1 = "w\<lparr>w_fds := (?f, FNode n) # w_fds w\<rparr>"
  have q1: "quiet ?w1" using assms(1) by (simp add: quiet_def)
  have neg: "\<not> ?f < 0" using fresh_fd_nonneg [of w] by simp
  have flt: "filter (\<lambda>p. fst p \<noteq> ?f) (w_fds w) = w_fds w" by (rule filter_fresh_fd)
  show ?thesis
  proof (cases "st_fmt (n_stat n) = S_IFLNK")
    case True
    then show ?thesis
      using assms Some
      by (simp add: parse_time_file_at_def secure_openat_read_def openat_rdonly_def
          env_step_quiet fails_def)
  next
    case nl: False
    have op: "openat_rdonly d name False w = (?f, ?w1)"
      using assms Some nl by (simp add: openat_rdonly_def env_step_quiet new_fd_def)
    have fs: "fstat ?f ?w1 = (Some (n_stat n), ?w1)"
      using q1 by (simp add: fstat_def env_step_quiet)
    show ?thesis
    proof (cases "\<not> is_reg (n_stat n) \<or> 1 < st_nlink (n_stat n)")
      case True
      have q2: "quiet (?w1\<lparr>w_errno := EINVAL\<rparr>)" using assms(1) by (simp add: quiet_def)
      have cl: "close ?f (?w1\<lparr>w_errno := EINVAL\<rparr>) = (0, w\<lparr>w_errno := EINVAL\<rparr>)"
        using q2 flt by (simp add: close_def env_step_quiet)
      have "secure_openat_read d name w = (-1, w\<lparr>w_errno := EINVAL\<rparr>)"
        using True neg by (simp add: secure_openat_read_def op fs cl)
      then show ?thesis using True nl Some by (simp add: parse_time_file_at_def)
    next
      case False
      then have reg: "is_reg (n_stat n)" and l1: "\<not> 1 < st_nlink (n_stat n)" by simp_all
      have nd: "\<not> is_dir (n_stat n)" using reg by (simp add: is_dir_def is_reg_def)
      have so: "secure_openat_read d name w = (?f, ?w1)"
        using False neg by (simp add: secure_openat_read_def op fs)
      show ?thesis
      proof (cases "w_eio w")
        case True
        have rd: "read ?f time_buf_size ?w1 = (None, ?w1\<lparr>w_errno := EIO\<rparr>)"
          using True nd q1 by (simp add: read_def env_step_quiet)
        have q2: "quiet (?w1\<lparr>w_errno := EIO\<rparr>)" using assms(1) by (simp add: quiet_def)
        have cl: "close ?f (?w1\<lparr>w_errno := EIO\<rparr>) = (0, w\<lparr>w_errno := EIO\<rparr>)"
          using q2 flt by (simp add: close_def env_step_quiet)
        show ?thesis
          using True False nl Some neg by (simp add: parse_time_file_at_def so rd cl)
      next
        case io: False
        have rd: "read ?f time_buf_size ?w1 = (Some (take time_buf_size (n_data n)), ?w1)"
          using io nd q1 by (simp add: read_def env_step_quiet)
        have cl: "close ?f ?w1 = (0, w)"
          using q1 flt by (simp add: close_def env_step_quiet)
        show ?thesis
          using io False nl Some neg
          by (simp add: parse_time_file_at_def so rd cl split: prod.splits)
      qed
    qed
  qed
qed

lemma parse_quiet_frame:
  assumes "quiet w" "at_err w d = E0"
  shows "snd (parse_time_file_at d name w) = w\<lparr>w_errno := w_errno (snd (parse_time_file_at d name w))\<rparr>"
  unfolding parse_time_file_at_quiet_eq [OF assms]
  by (simp split: option.splits prod.splits)

lemma parse_quiet_cong:
  assumes "quiet w" "at_err w d = E0" "quiet w'" "at_err w' d = E0"
    and "w_ents w' name = w_ents w name" "w_eio w' = w_eio w"
  shows "fst (parse_time_file_at d name w') = fst (parse_time_file_at d name w)"
  unfolding parse_time_file_at_quiet_eq [OF assms(1,2)] parse_time_file_at_quiet_eq [OF assms(3,4)]
    assms(5,6)
  by (simp split: option.splits prod.splits)

lemma parse_quiet_ok_errno:
  assumes "quiet w" "at_err w d = E0" "0 \<le> fst (parse_time_file_at d name w)"
  shows "w_errno (snd (parse_time_file_at d name w)) = E0"
  using assms(3) unfolding parse_time_file_at_quiet_eq [OF assms(1,2)]
  by (auto split: option.splits prod.splits if_splits dest: parse_time_buf_ok_errno)


lemma dd_lock_retry_refines:
  assumes "count \<noteq> 0" "unat count + happened = unat NO_TIME_FILE_COUNT + 1"
  shows "dd_lock_retry fuel count dd WAIT_FOR_OTHER_PROCESS_USLEEP flags pid w =
         spec_lock_open fuel happened dd flags pid w"
  using assms
proof (induction fuel arbitrary: count happened dd w)
  case 0
  show ?case by simp
next
  case (Suc n)
  let ?W = WAIT_FOR_OTHER_PROCESS_USLEEP
  show ?case
  proof (cases "dd_lock_wait (Suc n) dd ?W pid w")
    case None
    then show ?thesis by (simp only: dd_lock_retry.simps spec_lock_open.simps option.case)
  next
    case (Some a)
    obtain r w1 where a: "a = (r, w1)" by (cases a)
    note wt = Some [unfolded a]
    obtain t w2 where pt: "parse_time_file_at (dd_fd dd) FILENAME_TIME w1 = (t, w2)"
      by (cases "parse_time_file_at (dd_fd dd) FILENAME_TIME w1")
    obtain u w3 where un: "unlinkat (dd_fd dd) ''.lock'' w2 = (u, w3)"
      by (cases "unlinkat (dd_fd dd) ''.lock'' w2")
    have u1: "unat (count - 1) = unat count - 1" using Suc.prems(1) by (rule unat_minus_one)
    have cpos: "0 < unat count" using Suc.prems(1) by (simp add: unat_gt_0)
    have last: "(count - 1 = 0) = (happened = unat NO_TIME_FILE_COUNT)"
    proof -
      have "(count - 1 = 0) = (unat (count - 1) = 0)" by (simp add: unat_eq_0)
      also have "\<dots> = (unat count = 1)" using u1 cpos by auto
      also have "\<dots> = (happened = unat NO_TIME_FILE_COUNT)" using Suc.prems(2) by auto
      finally show ?thesis .
    qed
    have ih: "count - 1 \<noteq> 0 \<Longrightarrow>
              dd_lock_retry n (count - 1) (dd\<lparr>dd_time := t\<rparr>) ?W flags pid (usleep NO_TIME_FILE_USLEEP w3) =
              spec_lock_open n (happened + 1) (dd\<lparr>dd_time := t\<rparr>) flags pid (usleep NO_TIME_FILE_USLEEP w3)"
    proof -
      assume c: "count - 1 \<noteq> 0"
      then have "unat (count - 1) \<noteq> 0" by (simp add: unat_eq_0)
      then have "unat (count - 1) + (happened + 1) = unat NO_TIME_FILE_COUNT + 1"
        using u1 Suc.prems(2) by simp
      with c show ?thesis by (rule Suc.IH)
    qed
    have l: "dd_lock_retry (Suc n) count dd ?W flags pid w =
          (if r < 0 then Some (Ret (r, dd, w1))
           else if t < 0 then
             (if u \<noteq> 0 then Some Die
              else if count - 1 = 0 \<or> DD_DONT_WAIT_FOR_LOCK \<in> flags
                   then Some (Ret (-1, dd\<lparr>dd_time := t\<rparr>, w3\<lparr>w_errno := EISDIR\<rparr>))
                   else dd_lock_retry n (count - 1) (dd\<lparr>dd_time := t\<rparr>) ?W flags pid
                          (usleep NO_TIME_FILE_USLEEP w3))
           else Some (Ret (0, dd\<lparr>dd_time := t, locked := True\<rparr>, w2)))"
      by (simp add: wt dd_check_def pt xunlinkat_def un del: dd_lock_wait.simps)
    have r: "spec_lock_open (Suc n) happened dd flags pid w =
          (if r < 0 then Some (Ret (r, dd, w1))
           else if 0 \<le> t then Some (Ret (0, dd\<lparr>dd_time := t, locked := True\<rparr>, w2))
           else if u \<noteq> 0 then Some Die
              else if DD_DONT_WAIT_FOR_LOCK \<in> flags \<or> happened = unat NO_TIME_FILE_COUNT
                   then Some (Ret (-1, dd\<lparr>dd_time := t\<rparr>, w3\<lparr>w_errno := EISDIR\<rparr>))
                   else spec_lock_open n (happened + 1) (dd\<lparr>dd_time := t\<rparr>) flags pid
                          (usleep NO_TIME_FILE_USLEEP w3))"
      by (simp add: wt pt un del: dd_lock_wait.simps)
    show ?thesis unfolding l r using ih last by auto
  qed
qed

lemma env_step_calm: "w_sched w = [] # bs \<Longrightarrow> env_step w = w\<lparr>w_sched := bs\<rparr>"
  by (simp add: env_step_def)

lemma symlink_node_cong:
  "w_euid w' = w_euid w \<Longrightarrow> w_egid w' = w_egid w \<Longrightarrow> symlink_node w' t = symlink_node w t"
  by (simp add: symlink_node_def)

lemma lock_acquired_quiet:
  assumes "quiet w" "map_of (w_fds w) (dd_fd dd) = Some FDir" "w_direrr w = E0" "lock_free pid w"
  shows "\<exists>e. dd_lock_wait (Suc (Suc n)) dd su pid w =
             Some (1, w\<lparr>w_ents := (w_ents w)(''.lock'' \<mapsto> symlink_node w pid), w_errno := e\<rparr>)"
proof -
  let ?d = "dd_fd dd"
  have ae: "at_err w ?d = E0" using assms(2) by (simp add: at_err_E0)
  have fresh: "\<And>w'. quiet w' \<Longrightarrow> at_err w' ?d = E0 \<Longrightarrow> w_direrr w' = E0 \<Longrightarrow>
        w_ents w' ''.lock'' = None \<Longrightarrow>
        symlinkat pid ?d ''.lock'' w' = (0, w'\<lparr>w_ents := (w_ents w')(''.lock'' \<mapsto> symlink_node w' pid)\<rparr>)"
    by (simp add: symlinkat_def env_step_quiet)
  show ?thesis
  proof (cases "w_ents w ''.lock''")
    case None
    have "symlinkat pid ?d ''.lock'' w = (0, w\<lparr>w_ents := (w_ents w)(''.lock'' \<mapsto> symlink_node w pid)\<rparr>)"
      using assms(1) ae assms(3) None by (rule fresh)
    then have "dd_lock_wait (Suc (Suc n)) dd su pid w =
          Some (1, w\<lparr>w_ents := (w_ents w)(''.lock'' \<mapsto> symlink_node w pid), w_errno := w_errno w\<rparr>)"
      by simp
    then show ?thesis by blast
  next
    case (Some l)
    let ?t = "lock_target l"
    have lnk: "st_fmt (n_stat l) = S_IFLNK" and np: "?t \<noteq> c_str pid"
      and dead: "isdigit_str ?t \<longrightarrow> ?t \<notin> set (w_procs w)"
      using assms(4) Some by (simp_all add: lock_free_def)
    let ?w1 = "w\<lparr>w_errno := EEXIST\<rparr>"
    have q1: "quiet ?w1" using assms(1) by (simp add: quiet_def)
    have sy: "symlinkat pid ?d ''.lock'' w = (-1, ?w1)"
      using assms(1) ae Some by (simp add: symlinkat_def env_step_quiet fails_def)
    have rl: "readlinkat ?d ''.lock'' (16 - 1) ?w1 =
              (int (length (take 15 (n_data l))), take 15 (n_data l), ?w1)"
      using q1 ae Some lnk by (simp add: readlinkat_def env_step_quiet)
    have tk: "c_str (take (nat (int (length (take 15 (n_data l))))) (take 15 (n_data l))) = ?t"
      by (simp add: lock_target_def min_def)
    define w3 where "w3 = (if isdigit_str ?t then ?w1\<lparr>w_errno := ENOENT\<rparr> else ?w1)"
    have ac: "(if isdigit_str ?t then access_F_OK (''/proc/'' @ ?t) ?w1 else (-1, ?w1)) = (-1, w3)"
      using dead q1 by (simp add: access_F_OK_def env_step_quiet fails_def w3_def)
    have q3: "quiet w3" using assms(1) by (simp add: quiet_def w3_def)
    have ae3: "at_err w3 ?d = E0" using ae by (simp add: w3_def)
    have e3: "w_ents w3 = w_ents w" "w_direrr w3 = E0" using assms(3) by (simp_all add: w3_def)
    define w4 where "w4 = w3\<lparr>w_ents := (w_ents w)(''.lock'' := None)\<rparr>"
    have nd: "\<not> is_dir (n_stat l)" using lnk by (simp add: is_dir_def)
    have un: "unlinkat ?d ''.lock'' w3 = (0, w4)"
      using q3 ae3 e3 Some nd by (simp add: unlinkat_def env_step_quiet w4_def)
    have q4: "quiet w4" using q3 by (simp add: quiet_def w4_def)
    have ae4: "at_err w4 ?d = E0" using ae3 by (simp add: w4_def at_err_def)
    have s4: "symlinkat pid ?d ''.lock'' w4 =
              (0, w4\<lparr>w_ents := (w_ents w4)(''.lock'' \<mapsto> symlink_node w4 pid)\<rparr>)"
      using q4 ae4 by (rule fresh) (simp_all add: w4_def e3)
    have c1: "create_symlink_lockfile_at (Suc n) ?d ''.lock'' pid w4 =
              Some (1, w4\<lparr>w_ents := (w_ents w4)(''.lock'' \<mapsto> symlink_node w4 pid)\<rparr>)"
      by (simp add: s4)
    have neg: "\<not> int (length (take 15 (n_data l))) < 0" by simp
    have c2: "create_symlink_lockfile_at (Suc (Suc n)) ?d ''.lock'' pid w =
              Some (1, w4\<lparr>w_ents := (w_ents w4)(''.lock'' \<mapsto> symlink_node w4 pid)\<rparr>)"
      apply (subst create_symlink_lockfile_at.simps)
      apply (simp only: sy rl prod.case tk ac un c1)
      using np by simp
    have w: "w4\<lparr>w_ents := (w_ents w4)(''.lock'' \<mapsto> symlink_node w4 pid)\<rparr> =
             w\<lparr>w_ents := (w_ents w)(''.lock'' \<mapsto> symlink_node w pid), w_errno := w_errno w3\<rparr>"
      by (simp add: w4_def w3_def symlink_node_def)
    have "dd_lock_wait (Suc (Suc n)) dd su pid w =
          Some (1, w\<lparr>w_ents := (w_ents w)(''.lock'' \<mapsto> symlink_node w pid), w_errno := w_errno w3\<rparr>)"
      by (simp add: c2 w del: create_symlink_lockfile_at.simps)
    then show ?thesis by blast
  qed
qed


lemma time_parse_cong:
  assumes "quiet w" "map_of (w_fds w) (dd_fd dd) = Some FDir"
    and "quiet w'" "w_fds w' = w_fds w" "dd_fd dd' = dd_fd dd"
    and "w_ents w' FILENAME_TIME = w_ents w FILENAME_TIME" "w_eio w' = w_eio w"
  shows "time_parse dd' w' = time_parse dd w"
  unfolding time_parse_def assms(5)
  using assms(1-4,6,7) by (intro parse_quiet_cong) (simp_all add: at_err_E0)

lemma dd_check_quiet:
  assumes "quiet w" "map_of (w_fds w) (dd_fd dd) = Some FDir"
  shows "\<exists>e. dd_check dd w =
           ((if time_parse dd w < 0 then Some FILENAME_TIME else None),
            dd\<lparr>dd_time := time_parse dd w\<rparr>, w\<lparr>w_errno := e\<rparr>) \<and>
           (0 \<le> time_parse dd w \<longrightarrow> e = E0)"
proof -
  have ae: "at_err w (dd_fd dd) = E0" using assms(2) by (simp add: at_err_E0)
  obtain t w2 where p: "parse_time_file_at (dd_fd dd) FILENAME_TIME w = (t, w2)"
    by (cases "parse_time_file_at (dd_fd dd) FILENAME_TIME w")
  have t: "t = time_parse dd w" by (simp add: time_parse_def p)
  have w2: "w2 = w\<lparr>w_errno := w_errno w2\<rparr>"
    using parse_quiet_frame [OF assms(1) ae, of FILENAME_TIME] by (simp add: p)
  have ok: "0 \<le> time_parse dd w \<longrightarrow> w_errno w2 = E0"
    using parse_quiet_ok_errno [OF assms(1) ae, of FILENAME_TIME] by (simp add: p time_parse_def)
  have "dd_check dd w = ((if time_parse dd w < 0 then Some FILENAME_TIME else None),
            dd\<lparr>dd_time := time_parse dd w\<rparr>, w\<lparr>w_errno := w_errno w2\<rparr>)"
    using w2 by (simp add: dd_check_def p t [symmetric])
  with ok show ?thesis by blast
qed

lemma dd_lock_retry_quiet_ok:
  assumes "quiet w" "map_of (w_fds w) (dd_fd dd) = Some FDir" "w_direrr w = E0"
    and "lock_free pid w" "0 \<le> time_parse dd w" "1 < fuel"
  shows "dd_lock_retry fuel count dd WAIT_FOR_OTHER_PROCESS_USLEEP flags pid w =
         Some (Ret (0, dd\<lparr>dd_time := time_parse dd w, locked := True\<rparr>,
                    w\<lparr>w_ents := (w_ents w)(''.lock'' \<mapsto> symlink_node w pid), w_errno := E0\<rparr>))"
proof -
  let ?W = WAIT_FOR_OTHER_PROCESS_USLEEP
  obtain n where fuel: "fuel = Suc (Suc n)" using assms(6) by (cases fuel; cases "fuel - 1") auto
  obtain e where wt: "dd_lock_wait (Suc (Suc n)) dd ?W pid w =
       Some (1, w\<lparr>w_ents := (w_ents w)(''.lock'' \<mapsto> symlink_node w pid), w_errno := e\<rparr>)"
    using lock_acquired_quiet [OF assms(1-4)] by blast
  let ?w1 = "w\<lparr>w_ents := (w_ents w)(''.lock'' \<mapsto> symlink_node w pid), w_errno := e\<rparr>"
  have q1: "quiet ?w1" using assms(1) by (simp add: quiet_def)
  have f1: "map_of (w_fds ?w1) (dd_fd dd) = Some FDir" using assms(2) by simp
  have tp: "time_parse dd ?w1 = time_parse dd w"
    using assms(1,2) q1 by (rule time_parse_cong) (simp_all add: FILENAME_TIME_def)
  obtain e' where ck: "dd_check dd ?w1 = (None, dd\<lparr>dd_time := time_parse dd w\<rparr>, ?w1\<lparr>w_errno := e'\<rparr>)"
    and e': "e' = E0"
    using dd_check_quiet [OF q1 f1] assms(5) unfolding tp by auto
  show ?thesis
    unfolding fuel
    by (simp add: wt ck e' del: dd_lock_wait.simps)
qed

lemma dd_lock_retry_quiet_fail:
  assumes "quiet w" "map_of (w_fds w) (dd_fd dd) = Some FDir" "w_direrr w = E0"
    and "lock_free pid w" "time_parse dd w < 0" "count \<noteq> 0"
    and "(if DD_DONT_WAIT_FOR_LOCK \<in> flags then 1 else unat count) < fuel"
  shows "dd_lock_retry fuel count dd WAIT_FOR_OTHER_PROCESS_USLEEP flags pid w =
         Some (Ret (-1, dd\<lparr>dd_time := time_parse dd w\<rparr>,
                    w\<lparr>w_ents := (w_ents w)(''.lock'' := None), w_errno := EISDIR,
                      w_slept := w_slept w @
                        replicate (if DD_DONT_WAIT_FOR_LOCK \<in> flags then 0 else unat count - 1)
                          NO_TIME_FILE_USLEEP\<rparr>))"
  using assms
proof (induction fuel arbitrary: count dd w)
  case 0
  then show ?case by simp
next
  case (Suc m)
  let ?W = WAIT_FOR_OTHER_PROCESS_USLEEP
  let ?t = "time_parse dd w"
  have cpos: "0 < unat count" using Suc.prems(6) by (simp add: unat_gt_0)
  then obtain n where m: "m = Suc n" using Suc.prems(7) by (cases m) (auto split: if_splits)
  obtain e where wt: "dd_lock_wait (Suc (Suc n)) dd ?W pid w =
       Some (1, w\<lparr>w_ents := (w_ents w)(''.lock'' \<mapsto> symlink_node w pid), w_errno := e\<rparr>)"
    using lock_acquired_quiet [OF Suc.prems(1-4)] by blast
  let ?w1 = "w\<lparr>w_ents := (w_ents w)(''.lock'' \<mapsto> symlink_node w pid), w_errno := e\<rparr>"
  have q1: "quiet ?w1" using Suc.prems(1) by (simp add: quiet_def)
  have f1: "map_of (w_fds ?w1) (dd_fd dd) = Some FDir" using Suc.prems(2) by simp
  have tp: "time_parse dd ?w1 = ?t"
    using Suc.prems(1,2) q1 by (rule time_parse_cong) (simp_all add: FILENAME_TIME_def)
  obtain e' where ck: "dd_check dd ?w1 = (Some FILENAME_TIME, dd\<lparr>dd_time := ?t\<rparr>, ?w1\<lparr>w_errno := e'\<rparr>)"
    using dd_check_quiet [OF q1 f1] Suc.prems(5) unfolding tp by auto
  let ?w3 = "w\<lparr>w_ents := (w_ents w)(''.lock'' := None), w_errno := e'\<rparr>"
  have un: "unlinkat (dd_fd dd) ''.lock'' (?w1\<lparr>w_errno := e'\<rparr>) = (0, ?w3)"
    using Suc.prems(1,2,3)
    by (simp add: unlinkat_def env_step_quiet quiet_def at_err_E0 [of w] at_err_def
        symlink_node_def is_dir_def)
  have xu: "xunlinkat (dd_fd (dd\<lparr>dd_time := ?t\<rparr>)) ''.lock'' (?w1\<lparr>w_errno := e'\<rparr>) = Ret ?w3"
    using un by (simp add: xunlinkat_def)
  let ?dd2 = "dd\<lparr>dd_time := ?t\<rparr>"
  have e: "dd_lock_retry (Suc m) count dd ?W flags pid w =
           (if count - 1 = 0 \<or> DD_DONT_WAIT_FOR_LOCK \<in> flags
            then Some (Ret (-1, ?dd2, ?w3\<lparr>w_errno := EISDIR\<rparr>))
            else dd_lock_retry m (count - 1) ?dd2 ?W flags pid (usleep NO_TIME_FILE_USLEEP ?w3))"
    unfolding m using xu by (simp add: wt ck del: dd_lock_wait.simps)
  show ?case
  proof (cases "count - 1 = 0 \<or> DD_DONT_WAIT_FOR_LOCK \<in> flags")
    case True
    have "DD_DONT_WAIT_FOR_LOCK \<notin> flags \<Longrightarrow> unat count = 1"
    proof -
      assume "DD_DONT_WAIT_FOR_LOCK \<notin> flags"
      then have "count - 1 = 0" using True by simp
      then have "count = 1" by simp
      then show ?thesis by simp
    qed
    then have r0: "(if DD_DONT_WAIT_FOR_LOCK \<in> flags then 0 else unat count - 1) = 0" by auto
    have weq: "?w3\<lparr>w_errno := EISDIR\<rparr> =
               w\<lparr>w_ents := (w_ents w)(''.lock'' := None), w_errno := EISDIR,
                 w_slept := w_slept w @ replicate 0 NO_TIME_FILE_USLEEP\<rparr>"
      by simp
    show ?thesis unfolding e r0 weq [symmetric] by (simp only: True if_True)
  next
    case False
    then have c1: "count - 1 \<noteq> 0" and fl: "DD_DONT_WAIT_FOR_LOCK \<notin> flags" by simp_all
    let ?w4 = "w\<lparr>w_ents := (w_ents w)(''.lock'' := None), w_errno := e',
                   w_slept := w_slept w @ [NO_TIME_FILE_USLEEP]\<rparr>"
    have w4: "usleep NO_TIME_FILE_USLEEP ?w3 = ?w4"
      using Suc.prems(1) by (simp add: usleep_def env_step_def quiet_def)
    have u: "unat (count - 1) = unat count - 1" using Suc.prems(6) by (rule unat_minus_one)
    have "unat (count - 1) \<noteq> 0" using c1 by (simp add: unat_eq_0)
    then obtain k where k: "unat count = Suc (Suc k)"
      using u by (cases "unat count"; cases "unat count - 1") auto
    have q4: "quiet ?w4" using Suc.prems(1) by (simp add: quiet_def)
    have f4: "map_of (w_fds ?w4) (dd_fd ?dd2) = Some FDir" using Suc.prems(2) by simp
    have d4: "w_direrr ?w4 = E0" using Suc.prems(3) by simp
    have l4: "lock_free pid ?w4" by (simp add: lock_free_def)
    have tp4: "time_parse ?dd2 ?w4 = ?t"
      using Suc.prems(1,2) q4 by (rule time_parse_cong) (simp_all add: FILENAME_TIME_def)
    have t4: "time_parse ?dd2 ?w4 < 0" using Suc.prems(5) tp4 by simp
    have fuel: "(if DD_DONT_WAIT_FOR_LOCK \<in> flags then 1 else unat (count - 1)) < m"
      using Suc.prems(7) fl u k by simp
    note ih = Suc.IH [OF q4 f4 d4 l4 t4 c1 fuel, unfolded tp4]
    have r1: "(if DD_DONT_WAIT_FOR_LOCK \<in> flags then 0 else unat count - 1) = Suc k"
      and r2: "(if DD_DONT_WAIT_FOR_LOCK \<in> flags then 0 else unat (count - 1) - 1) = k"
      using fl u k by simp_all
    have deq: "?dd2\<lparr>dd_time := ?t\<rparr> = ?dd2" by simp
    have weq: "?w4\<lparr>w_ents := (w_ents ?w4)(''.lock'' := None), w_errno := EISDIR,
                   w_slept := w_slept ?w4 @ replicate k NO_TIME_FILE_USLEEP\<rparr> =
               w\<lparr>w_ents := (w_ents w)(''.lock'' := None), w_errno := EISDIR,
                 w_slept := w_slept w @ replicate (Suc k) NO_TIME_FILE_USLEEP\<rparr>"
      by simp
    show ?thesis
      unfolding e w4 r1 using ih [unfolded r2 deq weq] by (simp only: False if_False)
  qed
qed


lemma calm_round_nap:
  assumes "w_sched w = [] # [] # [] # b # rest"
    and "map_of (w_fds w) (dd_fd dd) = Some FDir" "w_direrr w = E0"
    and "w_ents w ''.lock'' = None" "w_ents w FILENAME_TIME = None"
    and "count - 1 \<noteq> 0" "DD_DONT_WAIT_FOR_LOCK \<notin> flags"
  shows "dd_lock_retry (Suc n) count dd WAIT_FOR_OTHER_PROCESS_USLEEP flags pid w =
         dd_lock_retry n (count - 1) (dd\<lparr>dd_time := -1\<rparr>) WAIT_FOR_OTHER_PROCESS_USLEEP flags pid
           ((foldl env_apply (w\<lparr>w_errno := ENOENT, w_sched := rest\<rparr>) b)
              \<lparr>w_slept := w_slept w @ [NO_TIME_FILE_USLEEP]\<rparr>)"
proof -
  let ?W = WAIT_FOR_OTHER_PROCESS_USLEEP
  let ?d = "dd_fd dd"
  let ?w1 = "w\<lparr>w_sched := [] # [] # b # rest,
                 w_ents := (w_ents w)(''.lock'' \<mapsto> symlink_node w pid)\<rparr>"
  let ?w2 = "w\<lparr>w_sched := [] # b # rest,
                 w_ents := (w_ents w)(''.lock'' \<mapsto> symlink_node w pid), w_errno := ENOENT\<rparr>"
  let ?w3 = "w\<lparr>w_sched := b # rest, w_errno := ENOENT\<rparr>"
  have ae: "\<And>w'. w_fds w' = w_fds w \<Longrightarrow> at_err w' ?d = E0"
    using assms(2) by (simp add: at_err_E0)
  have sy: "symlinkat pid ?d ''.lock'' w = (0, ?w1)"
    using assms(3,4) ae [of "w\<lparr>w_sched := [] # [] # b # rest\<rparr>"]
    by (simp add: symlinkat_def env_step_calm [OF assms(1)] symlink_node_def)
  have wt: "dd_lock_wait (Suc n) dd ?W pid w = Some (1, ?w1)"
    by (simp add: sy)
  have s1: "w_sched ?w1 = [] # [] # b # rest" by simp
  have op: "openat_rdonly ?d FILENAME_TIME False ?w1 = (-1, ?w2)"
    using assms(5) ae [of "?w1\<lparr>w_sched := [] # b # rest\<rparr>"]
    by (simp add: openat_rdonly_def env_step_calm [OF s1] fails_def FILENAME_TIME_def)
  have "secure_openat_read ?d FILENAME_TIME ?w1 = (-1, ?w2)"
    by (simp add: secure_openat_read_def op)
  then have "parse_time_file_at ?d FILENAME_TIME ?w1 = (-1, ?w2)"
    by (simp add: parse_time_file_at_def)
  then have ck: "dd_check dd ?w1 = (Some FILENAME_TIME, dd\<lparr>dd_time := -1\<rparr>, ?w2)"
    by (simp add: dd_check_def)
  have s2: "w_sched ?w2 = [] # b # rest" by simp
  have ents: "(w_ents w)(''.lock'' := None) = w_ents w" using assms(4) by (rule fun_upd_idem)
  have nd: "\<not> is_dir (n_stat (symlink_node w pid))" by (simp add: symlink_node_def is_dir_def)
  have un: "unlinkat ?d ''.lock'' ?w2 = (0, ?w3)"
    using assms(3) ae [of "?w2\<lparr>w_sched := b # rest\<rparr>"] ents nd
    by (simp add: unlinkat_def env_step_calm [OF s2])
  have xu: "xunlinkat (dd_fd (dd\<lparr>dd_time := -1\<rparr>)) ''.lock'' ?w2 = Ret ?w3"
    using un by (simp add: xunlinkat_def)
  have us: "usleep NO_TIME_FILE_USLEEP ?w3 =
            (foldl env_apply (w\<lparr>w_errno := ENOENT, w_sched := rest\<rparr>) b)
              \<lparr>w_slept := w_slept w @ [NO_TIME_FILE_USLEEP]\<rparr>"
    by (simp add: usleep_def env_step_def foldl_env_apply_frame)
  show ?thesis
    using assms(6,7) xu by (simp add: wt ck us del: dd_lock_wait.simps)
qed

lemma replicate_calm: "replicate (4 * Suc j + 3) x = x # x # x # x # replicate (4 * j + 3) x"
  by (simp add: numeral_eq_Suc)

lemma dd_lock_retry_time_appears:
  assumes "w_sched w = replicate (4 * j + 3) [] @ [[EnvPut FILENAME_TIME node]]"
    and "Suc j < unat count" "DD_DONT_WAIT_FOR_LOCK \<notin> flags"
    and "map_of (w_fds w) (dd_fd dd) = Some FDir" "w_direrr w = E0"
    and "w_ents w ''.lock'' = None" "w_ents w FILENAME_TIME = None"
    and "0 \<le> time_parse dd (w\<lparr>w_sched := [], w_ents := (w_ents w)(FILENAME_TIME \<mapsto> node)\<rparr>)"
    and "j + 2 < fuel"
  shows "dd_lock_retry fuel count dd WAIT_FOR_OTHER_PROCESS_USLEEP flags pid w =
         Some (Ret (0, dd\<lparr>dd_time := time_parse dd
                          (w\<lparr>w_sched := [], w_ents := (w_ents w)(FILENAME_TIME \<mapsto> node)\<rparr>),
                        locked := True\<rparr>,
                    w\<lparr>w_sched := [],
                      w_ents := (w_ents w)(FILENAME_TIME \<mapsto> node,
                                            ''.lock'' \<mapsto> symlink_node w pid),
                      w_errno := E0,
                      w_slept := w_slept w @ replicate (Suc j) NO_TIME_FILE_USLEEP\<rparr>))"
  using assms
proof (induction j arbitrary: count dd w fuel)
  case 0
  let ?W = WAIT_FOR_OTHER_PROCESS_USLEEP
  let ?wq = "w\<lparr>w_sched := [], w_ents := (w_ents w)(FILENAME_TIME \<mapsto> node)\<rparr>"
  obtain n where fuel: "fuel = Suc n" and n: "1 < n" using "0.prems"(9) by (cases fuel) auto
  have sch: "w_sched w = [] # [] # [] # [EnvPut FILENAME_TIME node] # []"
    using "0.prems"(1) by (simp add: numeral_eq_Suc)
  have c1: "count - 1 \<noteq> 0"
  proof
    assume "count - 1 = 0"
    then have "count = 1" by simp
    then show False using "0.prems"(2) by simp
  qed
  let ?w' = "w\<lparr>w_sched := [], w_errno := ENOENT, w_ents := (w_ents w)(FILENAME_TIME \<mapsto> node),
                 w_slept := w_slept w @ [NO_TIME_FILE_USLEEP]\<rparr>"
  have nap: "(foldl env_apply (w\<lparr>w_errno := ENOENT, w_sched := []\<rparr>) [EnvPut FILENAME_TIME node])
              \<lparr>w_slept := w_slept w @ [NO_TIME_FILE_USLEEP]\<rparr> = ?w'"
    by simp
  note step = calm_round_nap [OF sch "0.prems"(4-7) c1 "0.prems"(3), of n pid, unfolded nap]
  let ?dd2 = "dd\<lparr>dd_time := -1\<rparr>"
  have qq: "quiet ?wq" by (simp add: quiet_def)
  have fq: "map_of (w_fds ?wq) (dd_fd dd) = Some FDir" using "0.prems"(4) by simp
  have q': "quiet ?w'" by (simp add: quiet_def)
  have f': "map_of (w_fds ?w') (dd_fd ?dd2) = Some FDir" using "0.prems"(4) by simp
  have d': "w_direrr ?w' = E0" using "0.prems"(5) by simp
  have l': "lock_free pid ?w'" using "0.prems"(6) by (simp add: lock_free_def FILENAME_TIME_def)
  have tp: "time_parse ?dd2 ?w' = time_parse dd ?wq"
    using qq fq q' by (rule time_parse_cong) simp_all
  have t': "0 \<le> time_parse ?dd2 ?w'" using "0.prems"(8) unfolding tp .
  note ok = dd_lock_retry_quiet_ok [OF q' f' d' l' t' n, of "count - 1" flags, unfolded tp]
  have deq: "?dd2\<lparr>dd_time := time_parse dd ?wq, locked := True\<rparr> =
             dd\<lparr>dd_time := time_parse dd ?wq, locked := True\<rparr>" by simp
  have weq: "?w'\<lparr>w_ents := (w_ents ?w')(''.lock'' \<mapsto> symlink_node ?w' pid), w_errno := E0\<rparr> =
             w\<lparr>w_sched := [],
               w_ents := (w_ents w)(FILENAME_TIME \<mapsto> node, ''.lock'' \<mapsto> symlink_node w pid),
               w_errno := E0,
               w_slept := w_slept w @ replicate (Suc 0) NO_TIME_FILE_USLEEP\<rparr>"
    by (simp add: symlink_node_def)
  show ?case unfolding fuel step using ok [unfolded deq weq] .
next
  case (Suc j)
  let ?W = WAIT_FOR_OTHER_PROCESS_USLEEP
  let ?wq = "w\<lparr>w_sched := [], w_ents := (w_ents w)(FILENAME_TIME \<mapsto> node)\<rparr>"
  let ?rest = "replicate (4 * j + 3) [] @ [[EnvPut FILENAME_TIME node]]"
  obtain n where fuel: "fuel = Suc n" and n: "j + 2 < n" using Suc.prems(9) by (cases fuel) auto
  have sch: "w_sched w = [] # [] # [] # [] # ?rest"
    using Suc.prems(1) unfolding replicate_calm by simp
  have u: "unat (count - 1) = unat count - 1"
    using Suc.prems(2) by (intro unat_minus_one) auto
  have c1: "count - 1 \<noteq> 0"
  proof
    assume "count - 1 = 0"
    then have "count = 1" by simp
    then show False using Suc.prems(2) by simp
  qed
  let ?w' = "w\<lparr>w_sched := ?rest, w_errno := ENOENT,
                 w_slept := w_slept w @ [NO_TIME_FILE_USLEEP]\<rparr>"
  have nap: "(foldl env_apply (w\<lparr>w_errno := ENOENT, w_sched := ?rest\<rparr>) [])
              \<lparr>w_slept := w_slept w @ [NO_TIME_FILE_USLEEP]\<rparr> = ?w'"
    by simp
  note step = calm_round_nap [OF sch Suc.prems(4-7) c1 Suc.prems(3), of n pid, unfolded nap]
  let ?dd2 = "dd\<lparr>dd_time := -1\<rparr>"
  let ?wq' = "?w'\<lparr>w_sched := [], w_ents := (w_ents ?w')(FILENAME_TIME \<mapsto> node)\<rparr>"
  have qq: "quiet ?wq" by (simp add: quiet_def)
  have fq: "map_of (w_fds ?wq) (dd_fd dd) = Some FDir" using Suc.prems(4) by simp
  have qq': "quiet ?wq'" by (simp add: quiet_def)
  have tp: "time_parse ?dd2 ?wq' = time_parse dd ?wq"
    using qq fq qq' by (rule time_parse_cong) simp_all
  have p1: "w_sched ?w' = ?rest" by simp
  have p2: "Suc j < unat (count - 1)" using Suc.prems(2) u by simp
  have p4: "map_of (w_fds ?w') (dd_fd ?dd2) = Some FDir" using Suc.prems(4) by simp
  have p5: "w_direrr ?w' = E0" using Suc.prems(5) by simp
  have p6: "w_ents ?w' ''.lock'' = None" using Suc.prems(6) by simp
  have p7: "w_ents ?w' FILENAME_TIME = None" using Suc.prems(7) by simp
  have p8: "0 \<le> time_parse ?dd2 ?wq'" using Suc.prems(8) unfolding tp .
  note ih = Suc.IH [OF p1 p2 Suc.prems(3) p4 p5 p6 p7 p8 n, unfolded tp]
  have deq: "?dd2\<lparr>dd_time := time_parse dd ?wq, locked := True\<rparr> =
             dd\<lparr>dd_time := time_parse dd ?wq, locked := True\<rparr>" by simp
  have weq: "?w'\<lparr>w_sched := [],
               w_ents := (w_ents ?w')(FILENAME_TIME \<mapsto> node, ''.lock'' \<mapsto> symlink_node ?w' pid),
               w_errno := E0,
               w_slept := w_slept ?w' @ replicate (Suc j) NO_TIME_FILE_USLEEP\<rparr> =
             w\<lparr>w_sched := [],
               w_ents := (w_ents w)(FILENAME_TIME \<mapsto> node, ''.lock'' \<mapsto> symlink_node w pid),
               w_errno := E0,
               w_slept := w_slept w @ replicate (Suc (Suc j)) NO_TIME_FILE_USLEEP\<rparr>"
    by (simp add: symlink_node_def)
  show ?case unfolding fuel step using ih [unfolded deq weq] .
qed


lemma dd_lock_retry_dir_lost:
  assumes "w_sched w = [[], [], [], [EnvDirErr e]]" "e \<in> {ENOENT, ENOTDIR, EACCES}"
    and "1 < unat count" "DD_DONT_WAIT_FOR_LOCK \<notin> flags"
    and "map_of (w_fds w) (dd_fd dd) = Some FDir" "w_direrr w = E0"
    and "w_ents w ''.lock'' = None" "w_ents w FILENAME_TIME = None" "1 < fuel"
  shows "dd_lock_retry fuel count dd WAIT_FOR_OTHER_PROCESS_USLEEP flags pid w =
         Some (Ret (-1, dd\<lparr>dd_time := -1\<rparr>,
                    w\<lparr>w_errno := e, w_direrr := e, w_sched := [],
                      w_slept := w_slept w @ [NO_TIME_FILE_USLEEP]\<rparr>))"
proof -
  let ?W = WAIT_FOR_OTHER_PROCESS_USLEEP
  obtain n where fuel: "fuel = Suc (Suc n)" using assms(9) by (cases fuel; cases "fuel - 1") auto
  have sch: "w_sched w = [] # [] # [] # [EnvDirErr e] # []" using assms(1) by simp
  have c1: "count - 1 \<noteq> 0"
  proof
    assume "count - 1 = 0"
    then have "count = 1" by simp
    then show False using assms(3) by simp
  qed
  let ?w' = "w\<lparr>w_errno := ENOENT, w_direrr := e, w_sched := [],
                 w_slept := w_slept w @ [NO_TIME_FILE_USLEEP]\<rparr>"
  have nap: "(foldl env_apply (w\<lparr>w_errno := ENOENT, w_sched := []\<rparr>) [EnvDirErr e])
              \<lparr>w_slept := w_slept w @ [NO_TIME_FILE_USLEEP]\<rparr> = ?w'"
    by simp
  note step = calm_round_nap [OF sch assms(5-8) c1 assms(4), of "Suc n" pid, unfolded nap]
  have q': "quiet ?w'" by (simp add: quiet_def)
  have ae: "at_err ?w' (dd_fd dd) = E0" using assms(5) by (simp add: at_err_E0)
  have ne: "e \<noteq> E0" "e \<noteq> EEXIST" using assms(2) by auto
  have sy: "symlinkat pid (dd_fd dd) ''.lock'' ?w' = (-1, ?w'\<lparr>w_errno := e\<rparr>)"
    using q' ae assms(7) ne by (simp add: symlinkat_def env_step_quiet fails_def)
  have cr: "create_symlink_lockfile_at (Suc n) (dd_fd dd) ''.lock'' pid ?w' =
            Some (-1, ?w'\<lparr>w_errno := e\<rparr>)"
    using ne assms(2) by (auto simp: sy)
  have wt: "dd_lock_wait (Suc n) (dd\<lparr>dd_time := -1\<rparr>) ?W pid ?w' = Some (-1, ?w'\<lparr>w_errno := e\<rparr>)"
    using cr by (simp del: create_symlink_lockfile_at.simps)
  have "dd_lock_retry (Suc n) (count - 1) (dd\<lparr>dd_time := -1\<rparr>) ?W flags pid ?w' =
        Some (Ret (-1, dd\<lparr>dd_time := -1\<rparr>, ?w'\<lparr>w_errno := e\<rparr>))"
    by (simp add: wt del: dd_lock_wait.simps)
  then show ?thesis unfolding fuel step by simp
qed

lemma dec_pid_ex: "dec 4242 = ''4242''"
  by (simp add: dec.simps char_of_def bit_0)


text \<open>
  Claim C1. \<open>dd_lock\<close> is called on a handle that is not locked, with the sleep interval
  \<open>WAIT_FOR_OTHER_PROCESS_USLEEP\<close>.

  \<^item> In every world and for every bound on the rounds it does what section 4.3 says
    (\<open>spec_lock_open\<close>, counting from 1 the rounds that found no parseable \<open>time\<close> file):
    once \<^verbatim>\<open>.lock\<close> is made and \<open>time\<close> does not parse, \<^verbatim>\<open>.lock\<close> is unlinked first (the
    process dies if that fails); then the call returns \<open>-1\<close> with \<open>errno\<close> \<open>EISDIR\<close> and the
    handle not locked when the flag \<open>DD_DONT_WAIT_FOR_LOCK\<close> is passed or this is round
    \<open>NO_TIME_FILE_COUNT\<close>; otherwise it sleeps for \<open>NO_TIME_FILE_USLEEP\<close> and starts the
    lock sequence again.
  \<^item> Whatever the other processes do, when the call returns: the result is \<open>-1\<close> or \<open>0\<close>,
    and the handle is locked exactly when it is \<open>0\<close>. The rounds without \<open>time\<close> are
    counted by the sleeps of \<open>NO_TIME_FILE_USLEEP\<close> (\<open>naps\<close>), plus one when the return is
    the \<open>EISDIR\<close> one: on an \<open>EISDIR\<close> return \<^verbatim>\<open>.lock\<close> is gone and there was 1 such round
    with the flag and \<open>NO_TIME_FILE_COUNT\<close> without it; on every other return there were
    fewer (none with the flag).
  \<^item> In a quiet world, for a writable directory with no \<^verbatim>\<open>.lock\<close> or a stale one, the
    call returns once it is given more than \<open>NO_TIME_FILE_COUNT\<close> rounds. When \<open>time\<close>
    parses, the handle is locked, it has the time, and \<^verbatim>\<open>.lock\<close> points at our pid. When
    \<open>time\<close> does not parse, whatever it is: \<open>-1\<close> with \<open>EISDIR\<close>, the handle not locked,
    \<^verbatim>\<open>.lock\<close> gone, after \<open>NO_TIME_FILE_COUNT - 1\<close> sleeps (none with the flag).
  \<^item> When another process writes a parseable \<open>time\<close> file during the \<open>m\<close>-th of these
    sleeps (\<open>m\<close> below \<open>NO_TIME_FILE_COUNT\<close>, no flag), the lock sequence that follows
    succeeds: the handle is locked with that time after \<open>m\<close> sleeps.
  \<^item> When the directory stops being writable during the first of these sleeps, the call
    returns \<open>-1\<close> with the error of the next try-lock and not \<open>EISDIR\<close>: \<^verbatim>\<open>.lock\<close> had been
    unlinked before the sleep.
  \<^item> \<open>NO_TIME_FILE_COUNT\<close> is 10.
\<close>

theorem dd_lock_no_time_file:
  assumes "\<not> locked dd"
  shows "dd_lock fuel dd WAIT_FOR_OTHER_PROCESS_USLEEP flags w =
           spec_lock_open fuel 1 dd flags (dec (w_pid w)) w \<and>
         (\<forall>r dd' w'. dd_lock fuel dd WAIT_FOR_OTHER_PROCESS_USLEEP flags w = Some (Ret (r, dd', w')) \<longrightarrow>
            (r = -1 \<or> r = 0) \<and> locked dd' = (r = 0) \<and>
            (if r = -1 \<and> w_errno w' = EISDIR
             then w_ents w' ''.lock'' = None \<and>
                  naps w' + 1 = naps w +
                    (if DD_DONT_WAIT_FOR_LOCK \<in> flags then 1 else unat NO_TIME_FILE_COUNT)
             else naps w' <
                    naps w + (if DD_DONT_WAIT_FOR_LOCK \<in> flags then 1 else unat NO_TIME_FILE_COUNT))) \<and>
         (quiet w \<and> map_of (w_fds w) (dd_fd dd) = Some FDir \<and> w_direrr w = E0 \<and>
          lock_free (dec (w_pid w)) w \<and> unat NO_TIME_FILE_COUNT < fuel \<longrightarrow>
            dd_lock fuel dd WAIT_FOR_OTHER_PROCESS_USLEEP flags w =
              Some (Ret (if 0 \<le> time_parse dd w
                         then (0, dd\<lparr>dd_time := time_parse dd w, locked := True\<rparr>,
                               w\<lparr>w_ents := (w_ents w)(''.lock'' \<mapsto> symlink_node w (dec (w_pid w))),
                                 w_errno := E0\<rparr>)
                         else (-1, dd\<lparr>dd_time := time_parse dd w\<rparr>,
                               w\<lparr>w_ents := (w_ents w)(''.lock'' := None), w_errno := EISDIR,
                                 w_slept := w_slept w @
                                   replicate (if DD_DONT_WAIT_FOR_LOCK \<in> flags then 0
                                              else unat NO_TIME_FILE_COUNT - 1)
                                     NO_TIME_FILE_USLEEP\<rparr>)))) \<and>
         (\<forall>m node.
            w_sched w = replicate (4 * m - 1) [] @ [[EnvPut FILENAME_TIME node]] \<and>
            0 < m \<and> m < unat NO_TIME_FILE_COUNT \<and> DD_DONT_WAIT_FOR_LOCK \<notin> flags \<and>
            map_of (w_fds w) (dd_fd dd) = Some FDir \<and> w_direrr w = E0 \<and>
            w_ents w ''.lock'' = None \<and> w_ents w FILENAME_TIME = None \<and>
            0 \<le> time_parse dd (w\<lparr>w_sched := [], w_ents := (w_ents w)(FILENAME_TIME \<mapsto> node)\<rparr>) \<and>
            m + 1 < fuel \<longrightarrow>
            dd_lock fuel dd WAIT_FOR_OTHER_PROCESS_USLEEP flags w =
              Some (Ret (0, dd\<lparr>dd_time := time_parse dd
                               (w\<lparr>w_sched := [], w_ents := (w_ents w)(FILENAME_TIME \<mapsto> node)\<rparr>),
                             locked := True\<rparr>,
                         w\<lparr>w_sched := [],
                           w_ents := (w_ents w)(FILENAME_TIME \<mapsto> node,
                                                 ''.lock'' \<mapsto> symlink_node w (dec (w_pid w))),
                           w_errno := E0,
                           w_slept := w_slept w @ replicate m NO_TIME_FILE_USLEEP\<rparr>))) \<and>
         (\<forall>e. w_sched w = [[], [], [], [EnvDirErr e]] \<and> e \<in> {ENOENT, ENOTDIR, EACCES} \<and>
              DD_DONT_WAIT_FOR_LOCK \<notin> flags \<and>
              map_of (w_fds w) (dd_fd dd) = Some FDir \<and> w_direrr w = E0 \<and>
              w_ents w ''.lock'' = None \<and> w_ents w FILENAME_TIME = None \<and> 1 < fuel \<longrightarrow>
              dd_lock fuel dd WAIT_FOR_OTHER_PROCESS_USLEEP flags w =
                Some (Ret (-1, dd\<lparr>dd_time := -1\<rparr>,
                           w\<lparr>w_errno := e, w_direrr := e, w_sched := [],
                             w_slept := w_slept w @ [NO_TIME_FILE_USLEEP]\<rparr>))) \<and>
         unat NO_TIME_FILE_COUNT = 10"
proof -
  let ?W = WAIT_FOR_OTHER_PROCESS_USLEEP
  let ?pid = "dec (w_pid w)"
  have c: "NO_TIME_FILE_COUNT \<noteq> 0" by (simp add: NO_TIME_FILE_COUNT_def)
  have ten: "unat NO_TIME_FILE_COUNT = 10" by (simp add: NO_TIME_FILE_COUNT_def)
  have dl: "dd_lock fuel dd ?W flags w = dd_lock_retry fuel NO_TIME_FILE_COUNT dd ?W flags ?pid w"
    using assms by (simp add: dd_lock_def)
  have p1: "dd_lock fuel dd ?W flags w = spec_lock_open fuel 1 dd flags ?pid w"
    unfolding dl by (rule dd_lock_retry_refines [OF c]) simp
  have p2: "\<forall>r dd' w'. dd_lock fuel dd ?W flags w = Some (Ret (r, dd', w')) \<longrightarrow>
            (r = -1 \<or> r = 0) \<and> locked dd' = (r = 0) \<and>
            (if r = -1 \<and> w_errno w' = EISDIR
             then w_ents w' ''.lock'' = None \<and>
                  naps w' + 1 = naps w +
                    (if DD_DONT_WAIT_FOR_LOCK \<in> flags then 1 else unat NO_TIME_FILE_COUNT)
             else naps w' <
                    naps w + (if DD_DONT_WAIT_FOR_LOCK \<in> flags then 1 else unat NO_TIME_FILE_COUNT))"
  proof (intro allI impI)
    fix r dd' w'
    assume "dd_lock fuel dd ?W flags w = Some (Ret (r, dd', w'))"
    then have "dd_lock_retry fuel NO_TIME_FILE_COUNT dd ?W flags ?pid w = Some (Ret (r, dd', w'))"
      unfolding dl .
    note o = dd_lock_retry_outcome [OF this assms c]
    then show "(r = -1 \<or> r = 0) \<and> locked dd' = (r = 0) \<and>
            (if r = -1 \<and> w_errno w' = EISDIR
             then w_ents w' ''.lock'' = None \<and>
                  naps w' + 1 = naps w +
                    (if DD_DONT_WAIT_FOR_LOCK \<in> flags then 1 else unat NO_TIME_FILE_COUNT)
             else naps w' <
                    naps w + (if DD_DONT_WAIT_FOR_LOCK \<in> flags then 1 else unat NO_TIME_FILE_COUNT))"
      by (auto split: if_splits)
  qed
  have p3: "quiet w \<and> map_of (w_fds w) (dd_fd dd) = Some FDir \<and> w_direrr w = E0 \<and>
          lock_free ?pid w \<and> unat NO_TIME_FILE_COUNT < fuel \<longrightarrow>
            dd_lock fuel dd ?W flags w =
              Some (Ret (if 0 \<le> time_parse dd w
                         then (0, dd\<lparr>dd_time := time_parse dd w, locked := True\<rparr>,
                               w\<lparr>w_ents := (w_ents w)(''.lock'' \<mapsto> symlink_node w ?pid),
                                 w_errno := E0\<rparr>)
                         else (-1, dd\<lparr>dd_time := time_parse dd w\<rparr>,
                               w\<lparr>w_ents := (w_ents w)(''.lock'' := None), w_errno := EISDIR,
                                 w_slept := w_slept w @
                                   replicate (if DD_DONT_WAIT_FOR_LOCK \<in> flags then 0
                                              else unat NO_TIME_FILE_COUNT - 1)
                                     NO_TIME_FILE_USLEEP\<rparr>)))"
  proof (intro impI, elim conjE)
    assume h: "quiet w" "map_of (w_fds w) (dd_fd dd) = Some FDir" "w_direrr w = E0"
      "lock_free ?pid w" "unat NO_TIME_FILE_COUNT < fuel"
    show "dd_lock fuel dd ?W flags w =
              Some (Ret (if 0 \<le> time_parse dd w
                         then (0, dd\<lparr>dd_time := time_parse dd w, locked := True\<rparr>,
                               w\<lparr>w_ents := (w_ents w)(''.lock'' \<mapsto> symlink_node w ?pid),
                                 w_errno := E0\<rparr>)
                         else (-1, dd\<lparr>dd_time := time_parse dd w\<rparr>,
                               w\<lparr>w_ents := (w_ents w)(''.lock'' := None), w_errno := EISDIR,
                                 w_slept := w_slept w @
                                   replicate (if DD_DONT_WAIT_FOR_LOCK \<in> flags then 0
                                              else unat NO_TIME_FILE_COUNT - 1)
                                     NO_TIME_FILE_USLEEP\<rparr>)))"
    proof (cases "0 \<le> time_parse dd w")
      case True
      have f: "1 < fuel" using h(5) ten by simp
      show ?thesis
        unfolding dl dd_lock_retry_quiet_ok [OF h(1-4) True f]
        by (simp only: True if_True)
    next
      case False
      then have neg: "time_parse dd w < 0" by simp
      have f: "(if DD_DONT_WAIT_FOR_LOCK \<in> flags then 1 else unat NO_TIME_FILE_COUNT) < fuel"
        using h(5) ten by simp
      show ?thesis
        unfolding dl dd_lock_retry_quiet_fail [OF h(1-4) neg c f]
        by (simp only: False if_False)
    qed
  qed
  have p4: "\<forall>m node.
            w_sched w = replicate (4 * m - 1) [] @ [[EnvPut FILENAME_TIME node]] \<and>
            0 < m \<and> m < unat NO_TIME_FILE_COUNT \<and> DD_DONT_WAIT_FOR_LOCK \<notin> flags \<and>
            map_of (w_fds w) (dd_fd dd) = Some FDir \<and> w_direrr w = E0 \<and>
            w_ents w ''.lock'' = None \<and> w_ents w FILENAME_TIME = None \<and>
            0 \<le> time_parse dd (w\<lparr>w_sched := [], w_ents := (w_ents w)(FILENAME_TIME \<mapsto> node)\<rparr>) \<and>
            m + 1 < fuel \<longrightarrow>
            dd_lock fuel dd ?W flags w =
              Some (Ret (0, dd\<lparr>dd_time := time_parse dd
                               (w\<lparr>w_sched := [], w_ents := (w_ents w)(FILENAME_TIME \<mapsto> node)\<rparr>),
                             locked := True\<rparr>,
                         w\<lparr>w_sched := [],
                           w_ents := (w_ents w)(FILENAME_TIME \<mapsto> node,
                                                 ''.lock'' \<mapsto> symlink_node w ?pid),
                           w_errno := E0,
                           w_slept := w_slept w @ replicate m NO_TIME_FILE_USLEEP\<rparr>))"
  proof (intro allI impI, elim conjE)
    fix m node
    assume h: "w_sched w = replicate (4 * m - 1) [] @ [[EnvPut FILENAME_TIME node]]"
      "0 < m" "m < unat NO_TIME_FILE_COUNT" "DD_DONT_WAIT_FOR_LOCK \<notin> flags"
      "map_of (w_fds w) (dd_fd dd) = Some FDir" "w_direrr w = E0"
      "w_ents w ''.lock'' = None" "w_ents w FILENAME_TIME = None"
      "0 \<le> time_parse dd (w\<lparr>w_sched := [], w_ents := (w_ents w)(FILENAME_TIME \<mapsto> node)\<rparr>)"
      "m + 1 < fuel"
    obtain j where m: "m = Suc j" using h(2) by (cases m) auto
    have s: "w_sched w = replicate (4 * j + 3) [] @ [[EnvPut FILENAME_TIME node]]"
      using h(1) by (simp add: m)
    have lt: "Suc j < unat NO_TIME_FILE_COUNT" using h(3) m by simp
    have f: "j + 2 < fuel" using h(10) m by simp
    show "dd_lock fuel dd ?W flags w =
              Some (Ret (0, dd\<lparr>dd_time := time_parse dd
                               (w\<lparr>w_sched := [], w_ents := (w_ents w)(FILENAME_TIME \<mapsto> node)\<rparr>),
                             locked := True\<rparr>,
                         w\<lparr>w_sched := [],
                           w_ents := (w_ents w)(FILENAME_TIME \<mapsto> node,
                                                 ''.lock'' \<mapsto> symlink_node w ?pid),
                           w_errno := E0,
                           w_slept := w_slept w @ replicate m NO_TIME_FILE_USLEEP\<rparr>))"
      unfolding dl m by (rule dd_lock_retry_time_appears [OF s lt h(4-9) f])
  qed
  have p5: "\<forall>e. w_sched w = [[], [], [], [EnvDirErr e]] \<and> e \<in> {ENOENT, ENOTDIR, EACCES} \<and>
              DD_DONT_WAIT_FOR_LOCK \<notin> flags \<and>
              map_of (w_fds w) (dd_fd dd) = Some FDir \<and> w_direrr w = E0 \<and>
              w_ents w ''.lock'' = None \<and> w_ents w FILENAME_TIME = None \<and> 1 < fuel \<longrightarrow>
              dd_lock fuel dd ?W flags w =
                Some (Ret (-1, dd\<lparr>dd_time := -1\<rparr>,
                           w\<lparr>w_errno := e, w_direrr := e, w_sched := [],
                             w_slept := w_slept w @ [NO_TIME_FILE_USLEEP]\<rparr>))"
  proof (intro allI impI, elim conjE)
    fix e
    assume h: "w_sched w = [[], [], [], [EnvDirErr e]]" "e \<in> {ENOENT, ENOTDIR, EACCES}"
      "DD_DONT_WAIT_FOR_LOCK \<notin> flags"
      "map_of (w_fds w) (dd_fd dd) = Some FDir" "w_direrr w = E0"
      "w_ents w ''.lock'' = None" "w_ents w FILENAME_TIME = None" "1 < fuel"
    have c1: "1 < unat NO_TIME_FILE_COUNT" using ten by simp
    show "dd_lock fuel dd ?W flags w =
                Some (Ret (-1, dd\<lparr>dd_time := -1\<rparr>,
                           w\<lparr>w_errno := e, w_direrr := e, w_sched := [],
                             w_slept := w_slept w @ [NO_TIME_FILE_USLEEP]\<rparr>))"
      unfolding dl by (rule dd_lock_retry_dir_lost [OF h(1,2) c1 h(3-8)])
  qed
  show ?thesis using p1 p2 p3 p4 p5 ten by (intro conjI)
qed


lemma ex_time_parse:
  "time_parse (ex_dd\<lparr>locked := False\<rparr>) (ex_world Map.empty) = -1"
  "time_parse (ex_dd\<lparr>locked := False\<rparr>) (ex_world [''time'' \<mapsto> ex_file ''1700000000'']) = 1700000000"
proof -
  have q: "\<And>ents. quiet (ex_world ents)" "\<And>ents. at_err (ex_world ents) 3 = E0"
    by (simp_all add: quiet_def at_err_def ex_world_def)
  show "time_parse (ex_dd\<lparr>locked := False\<rparr>) (ex_world Map.empty) = -1"
    by (simp add: time_parse_def ex_dd_def parse_time_file_at_quiet_eq [OF q]) (simp add: ex_world_def)
  have "fst (parse_time_file_at 3 ''time'' (ex_world [''time'' \<mapsto> ex_file ''1700000000''])) =
        1700000000"
    using parse_time_file_at_quiet [OF q, of "[''time'' \<mapsto> ex_file ''1700000000'']" "''time''"
        "ex_file ''1700000000''"]
    by (simp add: ex_world_def ex_file_def is_reg_def time_buf_size_def sizeof_time_t_def
        parse_time_buf_eq strip_nl_def c_str_def isdigit_def byte_def decimal_def MAX_TIME_T_def)
  then show "time_parse (ex_dd\<lparr>locked := False\<rparr>) (ex_world [''time'' \<mapsto> ex_file ''1700000000'']) =
             1700000000"
    by (simp add: time_parse_def ex_dd_def FILENAME_TIME_def)
qed

theorem dd_lock_no_time_file_witness:
  "\<not> locked (ex_dd\<lparr>locked := False\<rparr>) \<and>
   dd_lock 11 (ex_dd\<lparr>locked := False\<rparr>) WAIT_FOR_OTHER_PROCESS_USLEEP {} (ex_world Map.empty) =
     Some (Ret (-1, ex_dd\<lparr>locked := False, dd_time := -1\<rparr>,
                (ex_world Map.empty)\<lparr>w_errno := EISDIR,
                                        w_slept := replicate 9 NO_TIME_FILE_USLEEP\<rparr>)) \<and>
   dd_lock 11 (ex_dd\<lparr>locked := False\<rparr>) WAIT_FOR_OTHER_PROCESS_USLEEP {DD_DONT_WAIT_FOR_LOCK}
       (ex_world Map.empty) =
     Some (Ret (-1, ex_dd\<lparr>locked := False, dd_time := -1\<rparr>,
                (ex_world Map.empty)\<lparr>w_errno := EISDIR\<rparr>)) \<and>
   dd_lock 11 (ex_dd\<lparr>locked := False\<rparr>) WAIT_FOR_OTHER_PROCESS_USLEEP {}
       (ex_world [''time'' \<mapsto> ex_file ''1700000000'']) =
     Some (Ret (0, ex_dd\<lparr>locked := True, dd_time := 1700000000\<rparr>,
                ex_world [''time'' \<mapsto> ex_file ''1700000000'', ''.lock'' \<mapsto> ex_symlink ''4242''])) \<and>
   dd_lock 3 (ex_dd\<lparr>locked := False\<rparr>) WAIT_FOR_OTHER_PROCESS_USLEEP {}
       ((ex_world Map.empty)\<lparr>w_sched := [[], [], [], [EnvPut ''time'' (ex_file ''1700000000'')]]\<rparr>) =
     Some (Ret (0, ex_dd\<lparr>locked := True, dd_time := 1700000000\<rparr>,
                (ex_world [''time'' \<mapsto> ex_file ''1700000000'', ''.lock'' \<mapsto> ex_symlink ''4242''])
                  \<lparr>w_slept := [NO_TIME_FILE_USLEEP]\<rparr>))"
proof -
  let ?dd = "ex_dd\<lparr>locked := False\<rparr>"
  let ?W = WAIT_FOR_OTHER_PROCESS_USLEEP
  let ?ws = "(ex_world Map.empty)\<lparr>w_sched := [[], [], [], [EnvPut ''time'' (ex_file ''1700000000'')]]\<rparr>"
  have l: "\<not> locked ?dd" by simp
  have ten: "unat NO_TIME_FILE_COUNT = 10" by (simp add: NO_TIME_FILE_COUNT_def)
  have pre: "\<And>ents. quiet (ex_world ents)"
    "\<And>ents. map_of (w_fds (ex_world ents)) (dd_fd ?dd) = Some FDir"
    "\<And>ents. w_direrr (ex_world ents) = E0"
    "\<And>ents. ents ''.lock'' = None \<Longrightarrow> lock_free (dec (w_pid (ex_world ents))) (ex_world ents)"
    by (simp_all add: quiet_def ex_world_def ex_dd_def lock_free_def)
  have pid: "\<And>ents. dec (w_pid (ex_world ents)) = ''4242''"
    by (simp add: ex_world_def dec_pid_ex)
  have pa: "\<And>ents. ents ''.lock'' = None \<Longrightarrow>
        quiet (ex_world ents) \<and> map_of (w_fds (ex_world ents)) (dd_fd ?dd) = Some FDir \<and>
        w_direrr (ex_world ents) = E0 \<and> lock_free (dec (w_pid (ex_world ents))) (ex_world ents) \<and>
        unat NO_TIME_FILE_COUNT < 11"
    using pre ten by simp
  have a: "dd_lock 11 ?dd ?W {} (ex_world Map.empty) =
     Some (Ret (-1, ex_dd\<lparr>locked := False, dd_time := -1\<rparr>,
                (ex_world Map.empty)\<lparr>w_errno := EISDIR,
                                        w_slept := replicate 9 NO_TIME_FILE_USLEEP\<rparr>))"
  proof -
    note t = dd_lock_no_time_file [OF l, where fuel = 11 and flags = "{}" and w = "ex_world Map.empty"]
    note t3 = t [THEN conjunct2, THEN conjunct2, THEN conjunct1, rule_format, OF pa,
        unfolded ex_time_parse ten]
    have "dd_lock 11 ?dd ?W {} (ex_world Map.empty) =
          Some (Ret (-1, ?dd\<lparr>dd_time := -1\<rparr>,
                     (ex_world Map.empty)\<lparr>w_ents := (w_ents (ex_world Map.empty))(''.lock'' := None),
                        w_errno := EISDIR,
                        w_slept := w_slept (ex_world Map.empty) @ replicate 9 NO_TIME_FILE_USLEEP\<rparr>))"
      using t3 by simp
    then show ?thesis by (simp add: ex_world_def)
  qed
  have b: "dd_lock 11 ?dd ?W {DD_DONT_WAIT_FOR_LOCK} (ex_world Map.empty) =
     Some (Ret (-1, ex_dd\<lparr>locked := False, dd_time := -1\<rparr>,
                (ex_world Map.empty)\<lparr>w_errno := EISDIR\<rparr>))"
  proof -
    note t = dd_lock_no_time_file [OF l, where fuel = 11 and flags = "{DD_DONT_WAIT_FOR_LOCK}"
        and w = "ex_world Map.empty"]
    note t3 = t [THEN conjunct2, THEN conjunct2, THEN conjunct1, rule_format, OF pa,
        unfolded ex_time_parse ten]
    have "dd_lock 11 ?dd ?W {DD_DONT_WAIT_FOR_LOCK} (ex_world Map.empty) =
          Some (Ret (-1, ?dd\<lparr>dd_time := -1\<rparr>,
                     (ex_world Map.empty)\<lparr>w_ents := (w_ents (ex_world Map.empty))(''.lock'' := None),
                        w_errno := EISDIR,
                        w_slept := w_slept (ex_world Map.empty) @ replicate 0 NO_TIME_FILE_USLEEP\<rparr>))"
      using t3 by simp
    then show ?thesis by (simp add: ex_world_def)
  qed
  have c: "dd_lock 11 ?dd ?W {} (ex_world [''time'' \<mapsto> ex_file ''1700000000'']) =
     Some (Ret (0, ex_dd\<lparr>locked := True, dd_time := 1700000000\<rparr>,
                ex_world [''time'' \<mapsto> ex_file ''1700000000'', ''.lock'' \<mapsto> ex_symlink ''4242'']))"
  proof -
    let ?w = "ex_world [''time'' \<mapsto> ex_file ''1700000000'']"
    note t = dd_lock_no_time_file [OF l, where fuel = 11 and flags = "{}" and w = ?w]
    note t3 = t [THEN conjunct2, THEN conjunct2, THEN conjunct1, rule_format, OF pa,
        unfolded ex_time_parse ten pid]
    have "dd_lock 11 ?dd ?W {} ?w =
          Some (Ret (0, ?dd\<lparr>dd_time := 1700000000, locked := True\<rparr>,
                     ?w\<lparr>w_ents := (w_ents ?w)(''.lock'' \<mapsto> symlink_node ?w ''4242''),
                        w_errno := E0\<rparr>))"
      using t3 by simp
    then show ?thesis by (simp add: ex_world_def symlink_node_def ex_symlink_def)
  qed
  have ws: "?ws\<lparr>w_sched := [], w_ents := (w_ents ?ws)(FILENAME_TIME \<mapsto> ex_file ''1700000000'')\<rparr> =
            ex_world [''time'' \<mapsto> ex_file ''1700000000'']"
    by (simp add: ex_world_def FILENAME_TIME_def)
  have d: "dd_lock 3 ?dd ?W {} ?ws =
     Some (Ret (0, ex_dd\<lparr>locked := True, dd_time := 1700000000\<rparr>,
                (ex_world [''time'' \<mapsto> ex_file ''1700000000'', ''.lock'' \<mapsto> ex_symlink ''4242''])
                  \<lparr>w_slept := [NO_TIME_FILE_USLEEP]\<rparr>))"
  proof -
    note t = dd_lock_no_time_file [OF l, where fuel = 3 and flags = "{}" and w = ?ws]
    note t4 = t [THEN conjunct2, THEN conjunct2, THEN conjunct2, THEN conjunct1,
        rule_format, of 1 "ex_file ''1700000000''", unfolded ws ex_time_parse]
    have "dd_lock 3 ?dd ?W {} ?ws =
          Some (Ret (0, ?dd\<lparr>dd_time := 1700000000, locked := True\<rparr>,
             ?ws\<lparr>w_sched := [],
                  w_ents := (w_ents ?ws)(FILENAME_TIME \<mapsto> ex_file ''1700000000'',
                                         ''.lock'' \<mapsto> symlink_node ?ws (dec (w_pid ?ws))),
                  w_errno := E0,
                  w_slept := w_slept ?ws @ replicate 1 NO_TIME_FILE_USLEEP\<rparr>))"
      by (rule t4) (simp add: ten ex_world_def ex_dd_def FILENAME_TIME_def numeral_eq_Suc)
    then show ?thesis
      by (simp add: ex_world_def symlink_node_def ex_symlink_def dec_pid_ex FILENAME_TIME_def)
  qed
  show ?thesis using l a b c d by (intro conjI)
qed

end
